theory Spec2Isabelle
  imports Main
begin

section \<open>Library management: catalogue, members, issue and return with late fines\<close>

text \<open>
  A shallow embedding of \<^verbatim>\<open>library_management.py\<close>. The module keeps three
  global dictionaries (\<^verbatim>\<open>books\<close>, \<^verbatim>\<open>members\<close>, \<^verbatim>\<open>issues\<close>) and a
  counter \<^verbatim>\<open>next_issue_id\<close>; every menu function reads its arguments with
  \<^verbatim>\<open>input()\<close>, mutates the dictionaries in place and reports by printing.

  In the model each function takes the state, the lines that its \<^verbatim>\<open>input()\<close>
  calls return, and, where it reads the clock, the value of
  \<^verbatim>\<open>datetime.today()\<close>. It returns what it printed as a complaint
  (\<open>None\<close> when it ran to its success message) together with the state it leaves
  behind. A character is one of the code points 0 to 255; the white space and
  the digits that Python knows above 255 are outside the model, and so is the
  interpreter's configurable limit on the number of digits that \<^verbatim>\<open>int()\<close>
  converts.
\<close>

subsection \<open>Configuration constants\<close>

definition FINE_PER_DAY :: int where
  "FINE_PER_DAY = 5"

definition MAX_FINE_LIMIT :: int where
  "MAX_FINE_LIMIT = 500"

definition ISSUE_DAYS :: int where
  "ISSUE_DAYS = 14"

subsection \<open>Dates\<close>

text \<open>
  A naive \<^verbatim>\<open>datetime\<close>: the proleptic ordinal of its calendar day (what
  \<^verbatim>\<open>.date().toordinal()\<close> gives) and the microseconds elapsed within that
  day. The source only subtracts calendar dates and adds whole days. The bound
  of Python's calendar (years 1 to 9999) is not represented: the time line is
  unbounded in both directions.
\<close>

record datetime =
  day_ordinal :: int
  time_of_day :: nat

text \<open>\<^verbatim>\<open>(a.date() - b.date()).days\<close>\<close>

definition date_diff_days :: "datetime \<Rightarrow> datetime \<Rightarrow> int" where
  "date_diff_days a b = day_ordinal a - day_ordinal b"

text \<open>\<^verbatim>\<open>d + timedelta(days=n)\<close>: the time of day is kept.\<close>

definition plus_days :: "datetime \<Rightarrow> int \<Rightarrow> datetime" where
  "plus_days d n = d\<lparr>day_ordinal := day_ordinal d + n\<rparr>"

subsection \<open>Data models\<close>

record book =
  book_id :: string
  title :: string
  author :: string
  category :: string
  total_copies :: int
  available_copies :: int

record member =
  member_id :: string
  name :: string
  phone :: string
  blocked :: bool
  outstanding_fine :: int
  borrowed_books :: "string list"

text \<open>
  The fields \<^verbatim>\<open>book_id\<close> and \<^verbatim>\<open>member_id\<close> of \<^verbatim>\<open>IssueRecord\<close> are
  written \<open>rec_book_id\<close> and \<open>rec_member_id\<close>, since record fields share one
  name space.
\<close>

record issue_record =
  issue_id :: int
  rec_book_id :: string
  rec_member_id :: string
  issue_date :: datetime
  due_date :: datetime
  return_date :: "datetime option"
  fine_charged :: int

text \<open>
  \<^verbatim>\<open>IssueRecord.days_late\<close>, with \<open>on_date\<close> already resolved (the default
  \<^verbatim>\<open>None\<close> stands for the clock). \<^verbatim>\<open>self.return_date or on_date\<close> takes the
  return date when there is one: a \<^verbatim>\<open>datetime\<close> is never falsy.
\<close>

definition days_late :: "issue_record \<Rightarrow> datetime \<Rightarrow> int" where
  "days_late self on_date =
     (let effective_date = (case return_date self of Some d \<Rightarrow> d | None \<Rightarrow> on_date);
          delta_days = date_diff_days effective_date (due_date self)
      in max 0 delta_days)"

subsection \<open>The in-memory stores\<close>

record state =
  books :: "string \<rightharpoonup> book"
  members :: "string \<rightharpoonup> member"
  issues :: "int \<rightharpoonup> issue_record"
  next_issue_id :: int

definition init_state :: state where
  "init_state = \<lparr>books = Map.empty, members = Map.empty, issues = Map.empty, next_issue_id = 1\<rparr>"

text \<open>
  What a function printed when it did not reach its success message. The
  specification's error kinds are given in brackets.
  \<^item> \<open>Book_not_found\<close>, \<open>Member_not_found\<close>, \<open>Issue_record_not_found\<close> [NotFound]
  \<^item> \<open>Book_id_exists\<close>, \<open>Member_id_exists\<close> [DuplicateKey]
  \<^item> \<open>Member_is_blocked\<close> [MemberBlocked]
  \<^item> \<open>No_available_copies\<close> [NoAvailability]
  \<^item> \<open>Already_returned\<close> [AlreadyReturned]
  \<^item> \<open>Record_missing\<close>: "Book or Member record missing. Cannot proceed safely." [DataIntegrity]
  \<^item> \<open>Cannot_reduce\<close>: "Cannot reduce below number of currently issued copies." [InvalidOperation]
  \<^item> \<open>Invalid_total\<close>: "Invalid total copies. Keeping old value."
  \<^item> \<open>Issue_id_not_number\<close>: "Issue ID must be a number."
  \<^item> \<open>EOFError\<close>, \<open>ValueError\<close>: an exception that no handler catches.
    \<^verbatim>\<open>return_book\<close> raises \<open>ValueError\<close> when \<^verbatim>\<open>isdigit()\<close> accepts the issue
    id and \<^verbatim>\<open>int()\<close> does not, as for a superscript two.
\<close>

datatype error =
    Book_not_found
  | Member_not_found
  | Issue_record_not_found
  | Book_id_exists
  | Member_id_exists
  | Member_is_blocked
  | No_available_copies
  | Already_returned
  | Record_missing
  | Cannot_reduce
  | Invalid_total
  | Issue_id_not_number
  | EOFError
  | ValueError

subsection \<open>Helper functions\<close>

text \<open>
  The characters that \<^verbatim>\<open>str.strip()\<close> removes, those for which
  \<^verbatim>\<open>str.isspace()\<close> holds: tab to carriage return, the four separators 28 to
  31, the space, next line (133) and the no-break space (160).
\<close>

definition is_space :: "char \<Rightarrow> bool" where
  "is_space c =
     (let n = (of_char c :: nat)
      in (9 \<le> n \<and> n \<le> 13) \<or> (28 \<le> n \<and> n \<le> 32) \<or> n = 133 \<or> n = 160)"

definition strip :: "string \<Rightarrow> string" where
  "strip s = rev (dropWhile is_space (rev (dropWhile is_space s)))"

text \<open>The decimal digits \<^verbatim>\<open>0\<close> to \<^verbatim>\<open>9\<close>, the only ones that \<^verbatim>\<open>int()\<close> reads.\<close>

definition is_digit :: "char \<Rightarrow> bool" where
  "is_digit c = (let n = (of_char c :: nat) in 48 \<le> n \<and> n \<le> 57)"

definition digit_val :: "char \<Rightarrow> int" where
  "digit_val c = int (of_char c) - 48"

text \<open>
  \<^verbatim>\<open>str.isdigit()\<close>: at least one character, and each of them a digit in
  the wider sense of that method, which besides \<^verbatim>\<open>0\<close> to \<^verbatim>\<open>9\<close> takes the
  superscripts two (178), three (179) and one (185).
\<close>

definition isdigit_char :: "char \<Rightarrow> bool" where
  "isdigit_char c =
     (let n = (of_char c :: nat) in (48 \<le> n \<and> n \<le> 57) \<or> n = 178 \<or> n = 179 \<or> n = 185)"

definition isdigit :: "string \<Rightarrow> bool" where
  "isdigit s = (s \<noteq> [] \<and> list_all isdigit_char s)"

text \<open>
  \<^verbatim>\<open>int(s)\<close> for a string: white space around, an optional sign, then decimal
  digits, where single underscores may stand between digits. \<open>None\<close> is
  \<^verbatim>\<open>ValueError\<close>. The white space that \<^verbatim>\<open>int()\<close> skips is narrower than that
  of \<^verbatim>\<open>strip()\<close>: the separators 28 to 31 are not skipped. \<open>int_digits\<close>
  expects a digit next, \<open>int_rest\<close> has just read one.
\<close>

definition is_int_space :: "char \<Rightarrow> bool" where
  "is_int_space c =
     (let n = (of_char c :: nat) in (9 \<le> n \<and> n \<le> 13) \<or> n = 32 \<or> n = 133 \<or> n = 160)"

definition int_strip :: "string \<Rightarrow> string" where
  "int_strip s = rev (dropWhile is_int_space (rev (dropWhile is_int_space s)))"

fun int_digits :: "int \<Rightarrow> string \<Rightarrow> int option"
  and int_rest :: "int \<Rightarrow> string \<Rightarrow> int option" where
  "int_digits acc [] = None"
| "int_digits acc (c # cs) =
     (if is_digit c then int_rest (10 * acc + digit_val c) cs else None)"
| "int_rest acc [] = Some acc"
| "int_rest acc (c # cs) =
     (if c = CHR ''_'' then int_digits acc cs
      else if is_digit c then int_rest (10 * acc + digit_val c) cs
      else None)"

definition int_of_str :: "string \<Rightarrow> int option" where
  "int_of_str s =
     (case int_strip s of
        [] \<Rightarrow> None
      | c # cs \<Rightarrow>
          if c = CHR ''-'' then map_option uminus (int_digits 0 cs)
          else if c = CHR ''+'' then int_digits 0 cs
          else int_digits 0 (c # cs))"

text \<open>
  \<^verbatim>\<open>int(s.strip())\<close>: the integer that an input line stands for in
  \<^verbatim>\<open>update_book\<close> and \<^verbatim>\<open>return_book\<close>, which strip the line before they
  convert it.
\<close>

definition py_int :: "string \<Rightarrow> int option" where
  "py_int s = int_of_str (strip s)"

text \<open>
  \<^verbatim>\<open>input_int\<close>: the loop asks again after a line that is not an integer or
  is below the minimum. The line goes to \<^verbatim>\<open>int()\<close> as it was read. The argument is what is left on standard input; when it
  runs out, \<^verbatim>\<open>input()\<close> raises \<^verbatim>\<open>EOFError\<close> (\<open>None\<close>).
\<close>

fun input_int :: "int \<Rightarrow> string list \<Rightarrow> int option" where
  "input_int minimum [] = None"
| "input_int minimum (l # ls) =
     (case int_of_str l of
        None \<Rightarrow> input_int minimum ls
      | Some v \<Rightarrow> if v < minimum then input_int minimum ls else Some v)"

definition check_and_update_block_status :: "member \<Rightarrow> member" where
  "check_and_update_block_status m =
     (if outstanding_fine m \<ge> MAX_FINE_LIMIT then m\<lparr>blocked := True\<rparr>
      else m\<lparr>blocked := False\<rparr>)"

subsection \<open>Book functions\<close>

text \<open>
  \<^verbatim>\<open>add_book\<close>. The last argument is the input left for \<^verbatim>\<open>input_int\<close>.
\<close>

definition add_book ::
  "state \<Rightarrow> string \<Rightarrow> string \<Rightarrow> string \<Rightarrow> string \<Rightarrow> string list \<Rightarrow> error option \<times> state" where
  "add_book st book_id_in title_in author_in category_in copies_in =
     (let bid = strip book_id_in in
      if bid \<in> dom (books st) then (Some Book_id_exists, st)
      else
        (case input_int 1 copies_in of
           None \<Rightarrow> (Some EOFError, st)
         | Some copies \<Rightarrow>
             (None, st\<lparr>books := (books st)(bid \<mapsto>
                \<lparr>book_id = bid, title = strip title_in, author = strip author_in,
                 category = strip category_in, total_copies = copies,
                 available_copies = copies\<rparr>)\<rparr>)))"

text \<open>
  \<^verbatim>\<open>update_book\<close>. The three text fields are overwritten first, each when its
  stripped input is not empty; then the copy count is handled. The test
  \<^verbatim>\<open>if new_total < len(book_id): pass\<close> of the source has no effect and has no
  counterpart here. After a complaint about the copy count the function still
  goes on to print the book as updated.
\<close>

definition update_book ::
  "state \<Rightarrow> string \<Rightarrow> string \<Rightarrow> string \<Rightarrow> string \<Rightarrow> string \<Rightarrow> error option \<times> state" where
  "update_book st book_id_in title_in author_in category_in total_in =
     (let bid = strip book_id_in in
      case books st bid of
        None \<Rightarrow> (Some Book_not_found, st)
      | Some b \<Rightarrow>
          (let new_title = strip title_in;
               new_author = strip author_in;
               new_category = strip category_in;
               new_total_str = strip total_in;
               b1 = (if new_title \<noteq> [] then b\<lparr>title := new_title\<rparr> else b);
               b2 = (if new_author \<noteq> [] then b1\<lparr>author := new_author\<rparr> else b1);
               b3 = (if new_category \<noteq> [] then b2\<lparr>category := new_category\<rparr> else b2)
           in
             if new_total_str \<noteq> [] then
               (case int_of_str new_total_str of
                  None \<Rightarrow> (Some Invalid_total, st\<lparr>books := (books st)(bid \<mapsto> b3)\<rparr>)
                | Some new_total \<Rightarrow>
                    if new_total < total_copies b3 - available_copies b3
                    then (Some Cannot_reduce, st\<lparr>books := (books st)(bid \<mapsto> b3)\<rparr>)
                    else
                      (let diff = new_total - total_copies b3;
                           b4 = b3\<lparr>total_copies := new_total,
                                   available_copies := available_copies b3 + diff\<rparr>
                       in (None, st\<lparr>books := (books st)(bid \<mapsto> b4)\<rparr>)))
             else (None, st\<lparr>books := (books st)(bid \<mapsto> b3)\<rparr>)))"

subsection \<open>Member functions\<close>

definition register_member :: "state \<Rightarrow> string \<Rightarrow> string \<Rightarrow> string \<Rightarrow> error option \<times> state" where
  "register_member st member_id_in name_in phone_in =
     (let mid = strip member_id_in in
      if mid \<in> dom (members st) then (Some Member_id_exists, st)
      else
        (None, st\<lparr>members := (members st)(mid \<mapsto>
           \<lparr>member_id = mid, name = strip name_in, phone = strip phone_in,
            blocked = False, outstanding_fine = 0, borrowed_books = []\<rparr>)\<rparr>))"

subsection \<open>Issue and return\<close>

text \<open>
  \<^verbatim>\<open>issue_book\<close> is written in two parts: \<open>issue_effect\<close> is what the
  function does once its checks have passed (it reads the clock, builds the
  record, stores it under \<^verbatim>\<open>next_issue_id\<close>, advances the counter, takes one
  copy off the book and appends the book id to the member's list);
  \<open>issue_book\<close> is the checks in front of it. The block status is recomputed,
  and stored in the member, before it is tested.
\<close>

definition issue_effect :: "state \<Rightarrow> string \<Rightarrow> string \<Rightarrow> book \<Rightarrow> member \<Rightarrow> datetime \<Rightarrow> state" where
  "issue_effect st bid mid b m today =
     (let issue_date = today;
          due_date = plus_days issue_date ISSUE_DAYS;
          record = \<lparr>issue_id = next_issue_id st, rec_book_id = bid, rec_member_id = mid,
                    issue_date = issue_date, due_date = due_date, return_date = None,
                    fine_charged = 0\<rparr>
      in st\<lparr>issues := (issues st)(next_issue_id st \<mapsto> record),
            next_issue_id := next_issue_id st + 1,
            books := (books st)(bid \<mapsto> b\<lparr>available_copies := available_copies b - 1\<rparr>),
            members := (members st)(mid \<mapsto> m\<lparr>borrowed_books := borrowed_books m @ [bid]\<rparr>)\<rparr>)"

definition issue_book :: "state \<Rightarrow> string \<Rightarrow> string \<Rightarrow> datetime \<Rightarrow> error option \<times> state" where
  "issue_book st book_id_in member_id_in today =
     (let bid = strip book_id_in; mid = strip member_id_in in
      case books st bid of
        None \<Rightarrow> (Some Book_not_found, st)
      | Some b \<Rightarrow>
          (case members st mid of
             None \<Rightarrow> (Some Member_not_found, st)
           | Some m0 \<Rightarrow>
               (let m = check_and_update_block_status m0;
                    st1 = st\<lparr>members := (members st)(mid \<mapsto> m)\<rparr>
                in
                  if blocked m then (Some Member_is_blocked, st1)
                  else if available_copies b \<le> 0 then (Some No_available_copies, st1)
                  else (None, issue_effect st bid mid b m today))))"

text \<open>
  \<^verbatim>\<open>return_book\<close>, in the same two parts. \<open>return_effect\<close> is the function
  from \<^verbatim>\<open>return_date = datetime.today()\<close> on: the record gets its return date
  and its fine, the fine is added to the member and the block status
  recomputed, the book gets a copy back, and the book id is taken off the
  member's list (\<^verbatim>\<open>list.remove\<close> drops the first occurrence, and is guarded
  by the membership test).
\<close>

definition return_effect :: "state \<Rightarrow> int \<Rightarrow> issue_record \<Rightarrow> book \<Rightarrow> member \<Rightarrow> datetime \<Rightarrow> state" where
  "return_effect st iid record b m today =
     (let record1 = record\<lparr>return_date := Some today\<rparr>;
          late_days = days_late record1 today;
          fine = late_days * FINE_PER_DAY;
          record2 = record1\<lparr>fine_charged := fine\<rparr>;
          m1 = m\<lparr>outstanding_fine := outstanding_fine m + fine\<rparr>;
          m2 = check_and_update_block_status m1;
          b1 = b\<lparr>available_copies := available_copies b + 1\<rparr>;
          m3 = (if rec_book_id record \<in> set (borrowed_books m2)
                then m2\<lparr>borrowed_books := remove1 (rec_book_id record) (borrowed_books m2)\<rparr>
                else m2)
      in st\<lparr>issues := (issues st)(iid \<mapsto> record2),
            books := (books st)(rec_book_id record \<mapsto> b1),
            members := (members st)(rec_member_id record \<mapsto> m3)\<rparr>)"

definition return_book :: "state \<Rightarrow> string \<Rightarrow> datetime \<Rightarrow> error option \<times> state" where
  "return_book st issue_id_in today =
     (let issue_id_str = strip issue_id_in in
      if \<not> isdigit issue_id_str then (Some Issue_id_not_number, st)
      else
        (case int_of_str issue_id_str of
           None \<Rightarrow> (Some ValueError, st)
         | Some iid \<Rightarrow>
             (case issues st iid of
                None \<Rightarrow> (Some Issue_record_not_found, st)
              | Some record \<Rightarrow>
                  if return_date record \<noteq> None then (Some Already_returned, st)
                  else
                    (case books st (rec_book_id record) of
                       None \<Rightarrow> (Some Record_missing, st)
                     | Some b \<Rightarrow>
                         (case members st (rec_member_id record) of
                            None \<Rightarrow> (Some Record_missing, st)
                          | Some m \<Rightarrow> (None, return_effect st iid record b m today))))))"

subsection \<open>Reports\<close>

text \<open>
  \<^verbatim>\<open>issues.values()\<close>. A dictionary lists its values in the order in which
  the keys were first stored; the only store is \<^verbatim>\<open>issues[next_issue_id]\<close> with
  the counter going up from 1, so these are the entries at the keys
  \<open>1, \<dots>, next_issue_id - 1\<close> in this order.
\<close>

definition issue_values :: "state \<Rightarrow> issue_record list" where
  "issue_values st = List.map_filter (issues st) [1..next_issue_id st - 1]"

text \<open>The list \<^verbatim>\<open>active\<close> of \<^verbatim>\<open>view_active_issues\<close>.\<close>

definition active_issues :: "state \<Rightarrow> issue_record list" where
  "active_issues st = filter (\<lambda>r. return_date r = None) (issue_values st)"

text \<open>How many active issue records name a book, and a member with a book.\<close>

definition issued_copies :: "state \<Rightarrow> string \<Rightarrow> nat" where
  "issued_copies st bid = length (filter (\<lambda>r. rec_book_id r = bid) (active_issues st))"

definition active_loans :: "state \<Rightarrow> string \<Rightarrow> string \<Rightarrow> nat" where
  "active_loans st mid bid =
     length (filter (\<lambda>r. rec_member_id r = mid \<and> rec_book_id r = bid) (active_issues st))"

subsection \<open>Sequences of operations\<close>

text \<open>
  One constructor for each menu entry that changes the stores, with the input
  it reads. \<open>run\<close> performs a list of them from left to right.
\<close>

datatype op =
    Add_book string string string string "string list"
  | Update_book string string string string string
  | Register_member string string string
  | Issue_book string string datetime
  | Return_book string datetime

fun perform :: "state \<Rightarrow> op \<Rightarrow> error option \<times> state" where
  "perform st (Add_book i t a c n) = add_book st i t a c n"
| "perform st (Update_book i t a c n) = update_book st i t a c n"
| "perform st (Register_member i n p) = register_member st i n p"
| "perform st (Issue_book b m d) = issue_book st b m d"
| "perform st (Return_book i d) = return_book st i d"

definition step :: "state \<Rightarrow> op \<Rightarrow> state" where
  "step st x = snd (perform st x)"

definition run :: "state \<Rightarrow> op list \<Rightarrow> state" where
  "run st xs = foldl step st xs"

subsection \<open>Properties of the stores\<close>

text \<open>Issue ids lie between 1 and the counter, and each record sits under its own id.\<close>

definition ids_ok :: "state \<Rightarrow> bool" where
  "ids_ok st \<longleftrightarrow>
     1 \<le> next_issue_id st \<and>
     (\<forall>i r. issues st i = Some r \<longrightarrow> 1 \<le> i \<and> i < next_issue_id st \<and> issue_id r = i)"

text \<open>Every issue record names a book and a member that are in the stores.\<close>

definition refs_ok :: "state \<Rightarrow> bool" where
  "refs_ok st \<longleftrightarrow>
     (\<forall>i r. issues st i = Some r \<longrightarrow>
        rec_book_id r \<in> dom (books st) \<and> rec_member_id r \<in> dom (members st))"

text \<open>The blocking law.\<close>

definition block_ok :: "state \<Rightarrow> bool" where
  "block_ok st \<longleftrightarrow>
     (\<forall>mid m. members st mid = Some m \<longrightarrow>
        blocked m = (MAX_FINE_LIMIT \<le> outstanding_fine m))"

text \<open>The copies of a book that are not available are those out on active issues.\<close>

definition copies_ok :: "state \<Rightarrow> bool" where
  "copies_ok st \<longleftrightarrow>
     (\<forall>bid b. books st bid = Some b \<longrightarrow>
        total_copies b - available_copies b = int (issued_copies st bid))"

text \<open>A member's list holds each book id once for every active issue of that book to the member.\<close>

definition borrowed_ok :: "state \<Rightarrow> bool" where
  "borrowed_ok st \<longleftrightarrow>
     (\<forall>mid m bid. members st mid = Some m \<longrightarrow>
        count_list (borrowed_books m) bid = active_loans st mid bid)"

text \<open>No book has a negative number of available copies.\<close>

definition avail_ok :: "state \<Rightarrow> bool" where
  "avail_ok st \<longleftrightarrow> (\<forall>bid b. books st bid = Some b \<longrightarrow> 0 \<le> available_copies b)"

definition stores_ok :: "state \<Rightarrow> bool" where
  "stores_ok st \<longleftrightarrow>
     ids_ok st \<and> refs_ok st \<and> block_ok st \<and> avail_ok st \<and> copies_ok st \<and> borrowed_ok st"

text \<open>
  The ids below \<open>n\<close> under which \<open>f\<close> holds a record that has not been returned
  and satisfies \<open>Q\<close>; used to count the entries of \<open>active_issues\<close>.
\<close>

definition active_ids :: "int \<Rightarrow> (int \<rightharpoonup> issue_record) \<Rightarrow> (issue_record \<Rightarrow> bool) \<Rightarrow> int set" where
  "active_ids n f Q =
     {i. 1 \<le> i \<and> i < n \<and> (\<exists>r. f i = Some r \<and> return_date r = None \<and> Q r)}"

subsection \<open>Scenarios\<close>

text \<open>Concrete inputs on which the theorems below are instantiated.\<close>

definition at_day :: "int \<Rightarrow> datetime" where
  "at_day n = \<lparr>day_ordinal = n, time_of_day = 0\<rparr>"

text \<open>One book with a single copy, one member, and the copy issued on day 0.\<close>

definition scenario_A :: "op list" where
  "scenario_A =
     [Add_book ''B1'' ''Title'' ''Author'' ''Fiction'' [''1''],
      Register_member ''M1'' ''Name'' ''Phone'',
      Issue_book ''B1'' ''M1'' (at_day 0)]"

text \<open>
  One book with two copies, both issued to the same member on day 0; the first
  is brought back on day 114, a hundred days late.
\<close>

definition scenario_B :: "op list" where
  "scenario_B =
     [Add_book ''B1'' ''Title'' ''Author'' ''Fiction'' [''2''],
      Register_member ''M1'' ''Name'' ''Phone'',
      Issue_book ''B1'' ''M1'' (at_day 0),
      Issue_book ''B1'' ''M1'' (at_day 0),
      Return_book ''1'' (at_day 114)]"

text \<open>One book with three copies, two of them out.\<close>

definition scenario_D :: "op list" where
  "scenario_D =
     [Add_book ''B1'' ''Title'' ''Author'' ''Fiction'' [''3''],
      Register_member ''M1'' ''Name'' ''Phone'',
      Issue_book ''B1'' ''M1'' (at_day 0),
      Issue_book ''B1'' ''M1'' (at_day 1)]"

section \<open>Input helpers\<close>

lemma is_digit_not_space: "is_digit c \<Longrightarrow> \<not> is_space c"
  by (auto simp: is_digit_def is_space_def Let_def)

lemma dropWhile_rev_fix:
  assumes "ys = [] \<or> \<not> P (hd ys)"
  shows "dropWhile P (rev (dropWhile P (rev ys))) = rev (dropWhile P (rev ys))"
  using assms by (cases ys) (simp_all add: dropWhile_append)

lemma strip_idem: "strip (strip s) = strip s"
proof -
  let ?ys = "dropWhile is_space s"
  have "?ys = [] \<or> \<not> is_space (hd ?ys)"
    using hd_dropWhile [of is_space s] by blast
  then have "dropWhile is_space (strip s) = strip s"
    unfolding strip_def by (rule dropWhile_rev_fix)
  then show ?thesis
    by (simp add: strip_def)
qed

lemma int_of_str_strip: "int_of_str (strip s) = py_int s"
  by (simp add: py_int_def)

lemma py_int_strip: "py_int (strip s) = py_int s"
  by (simp add: py_int_def strip_idem)

lemma py_int_Some_nonempty: "py_int s = Some n \<Longrightarrow> strip s \<noteq> []"
  by (auto simp: py_int_def int_of_str_def int_strip_def)

lemma int_rest_digits: "list_all is_digit cs \<Longrightarrow> \<exists>n. int_rest acc cs = Some n"
proof (induction cs arbitrary: acc)
  case Nil
  then show ?case by simp
next
  case (Cons c cs)
  then show ?case by (auto simp: is_digit_def)
qed

lemma dropWhile_none: "\<forall>x\<in>set xs. \<not> P x \<Longrightarrow> dropWhile P xs = xs"
  by (cases xs) auto

lemma is_int_space_is_space: "is_int_space c \<Longrightarrow> is_space c"
  by (auto simp: is_int_space_def is_space_def Let_def)

lemma strip_no_space: "list_all (\<lambda>c. \<not> is_space c) s \<Longrightarrow> strip s = s"
  by (simp add: strip_def list_all_iff dropWhile_none)

lemma int_strip_no_space:
  assumes "list_all (\<lambda>c. \<not> is_space c) s"
  shows "int_strip s = s"
proof -
  have "\<forall>c\<in>set s. \<not> is_int_space c"
    using assms is_int_space_is_space by (auto simp: list_all_iff)
  then show ?thesis
    by (simp add: int_strip_def dropWhile_none)
qed

text \<open>
  A line of decimal digits converts. The wider \<^verbatim>\<open>isdigit()\<close> does not
  promise this: a superscript passes it and \<^verbatim>\<open>int()\<close> raises.
\<close>

lemma decimal_py_int:
  assumes "s \<noteq> []" "list_all is_digit s"
  shows "\<exists>n. py_int s = Some n"
proof -
  from assms obtain c cs where s: "s = c # cs" and c: "is_digit c" and cs: "list_all is_digit cs"
    by (cases s) auto
  have "list_all (\<lambda>c. \<not> is_space c) s"
    using assms by (auto simp: list_all_iff is_digit_not_space)
  then have "strip s = s" "int_strip s = s"
    by (simp_all add: strip_no_space int_strip_no_space)
  moreover have "c \<noteq> CHR ''-''" "c \<noteq> CHR ''+''" using c by (auto simp: is_digit_def)
  moreover obtain n where "int_rest (10 * 0 + digit_val c) cs = Some n"
    using int_rest_digits [OF cs] by blast
  ultimately show ?thesis using c by (simp add: py_int_def int_of_str_def s)
qed

lemma superscript_isdigit_not_int:
  "isdigit [CHR 0xB2] \<and> strip [CHR 0xB2] = [CHR 0xB2] \<and> py_int [CHR 0xB2] = None"
  by code_simp

section \<open>Returning a book\<close>

lemma return_book_commit:
  assumes "isdigit (strip s)" "py_int s = Some iid" "issues st iid = Some r"
    "return_date r = None" "books st (rec_book_id r) = Some b"
    "members st (rec_member_id r) = Some m"
  shows "return_book st s now = (None, return_effect st iid r b m now)"
  using assms by (simp add: return_book_def int_of_str_strip)

lemma return_book_cases:
  assumes "return_book st s now = (e, st')"
  shows "(e \<noteq> None \<and> st' = st) \<or>
         (\<exists>iid r b m. e = None \<and> isdigit (strip s) \<and> py_int s = Some iid \<and>
            issues st iid = Some r \<and> return_date r = None \<and>
            books st (rec_book_id r) = Some b \<and> members st (rec_member_id r) = Some m \<and>
            st' = return_effect st iid r b m now)"
  using assms
  by (auto simp: return_book_def int_of_str_strip Let_def split: if_splits option.splits)

lemma return_effect_issues:
  "issues (return_effect st iid r b m now) =
     (issues st)(iid \<mapsto> r\<lparr>return_date := Some now,
        fine_charged := max 0 (date_diff_days now (due_date r)) * FINE_PER_DAY\<rparr>)"
  by (simp add: return_effect_def days_late_def Let_def)

lemma return_effect_next: "next_issue_id (return_effect st iid r b m now) = next_issue_id st"
  by (simp add: return_effect_def Let_def)

lemma return_effect_books:
  "books (return_effect st iid r b m now) =
     (books st)(rec_book_id r \<mapsto> b\<lparr>available_copies := available_copies b + 1\<rparr>)"
  by (simp add: return_effect_def Let_def)

lemma return_effect_members:
  "members (return_effect st iid r b m now) =
     (members st)(rec_member_id r \<mapsto>
        m\<lparr>outstanding_fine :=
             outstanding_fine m + max 0 (date_diff_days now (due_date r)) * FINE_PER_DAY,
          blocked :=
            (MAX_FINE_LIMIT \<le>
               outstanding_fine m + max 0 (date_diff_days now (due_date r)) * FINE_PER_DAY),
          borrowed_books := remove1 (rec_book_id r) (borrowed_books m)\<rparr>)"
  by (simp add: return_effect_def days_late_def Let_def check_and_update_block_status_def
      remove1_idem)

text \<open>
  Claim C2. A return that goes through charges nothing when the calendar day of
  the return is not after the calendar day of the due date, and \<open>d * FINE_PER_DAY\<close>
  when it is \<open>d > 0\<close> calendar days after it; the record keeps that fine, and
  the member's outstanding fine grows by exactly that amount.
\<close>

theorem return_book_fine:
  assumes "isdigit (strip s)" "py_int s = Some iid" "issues st iid = Some r"
    "return_date r = None" "books st (rec_book_id r) = Some b"
    "members st (rec_member_id r) = Some m"
  shows "\<exists>st' r' m'. return_book st s now = (None, st') \<and> issues st' iid = Some r' \<and>
           members st' (rec_member_id r) = Some m' \<and>
           return_date r' = Some now \<and>
           (day_ordinal now \<le> day_ordinal (due_date r) \<longrightarrow> fine_charged r' = 0) \<and>
           (\<forall>d. 0 < d \<and> day_ordinal now - day_ordinal (due_date r) = d \<longrightarrow>
                fine_charged r' = d * FINE_PER_DAY) \<and>
           outstanding_fine m' = outstanding_fine m + fine_charged r'"
  unfolding return_book_commit [OF assms]
  by (simp add: return_effect_issues return_effect_members date_diff_days_def)

theorem return_book_fine_witness:
  "return_book (run init_state scenario_A) ''1'' (at_day 20) =
     (None, run init_state (scenario_A @ [Return_book ''1'' (at_day 20)])) \<and>
   map_option fine_charged
     (issues (run init_state (scenario_A @ [Return_book ''1'' (at_day 20)])) 1) = Some 30 \<and>
   map_option outstanding_fine
     (members (run init_state (scenario_A @ [Return_book ''1'' (at_day 20)])) ''M1'') = Some 30"
proof -
  let ?st = "run init_state scenario_A"
  let ?r = "\<lparr>issue_id = 1, rec_book_id = ''B1'', rec_member_id = ''M1'',
             issue_date = at_day 0, due_date = at_day 14, return_date = None,
             fine_charged = 0\<rparr>"
  have h1: "isdigit (strip ''1'')" by code_simp
  have h2: "py_int ''1'' = Some 1" by code_simp
  have h3: "issues ?st 1 = Some ?r" by code_simp
  have h4: "return_date ?r = None" by simp
  have h5: "books ?st (rec_book_id ?r) =
      Some \<lparr>book_id = ''B1'', title = ''Title'', author = ''Author'', category = ''Fiction'',
            total_copies = 1, available_copies = 0\<rparr>"
    by code_simp
  have h6: "members ?st (rec_member_id ?r) =
      Some \<lparr>member_id = ''M1'', name = ''Name'', phone = ''Phone'', blocked = False,
            outstanding_fine = 0, borrowed_books = [''B1'']\<rparr>"
    by code_simp
  have run: "run init_state (scenario_A @ [Return_book ''1'' (at_day 20)]) =
      snd (return_book ?st ''1'' (at_day 20))"
    by (simp add: run_def step_def)
  from return_book_fine [OF h1 h2 h3 h4 h5 h6, of "at_day 20"]
  show ?thesis
    unfolding run by (auto simp: at_day_def FINE_PER_DAY_def)
qed

text \<open>
  Claim C4. Returning an issue whose record already carries a return date fails
  with "Book already returned." and leaves the whole state as it was: the
  record, the book and the member are untouched.
\<close>

theorem return_book_already_returned:
  assumes "isdigit (strip s)" "py_int s = Some iid" "issues st iid = Some r" "return_date r \<noteq> None"
  shows "return_book st s now = (Some Already_returned, st)"
  using assms by (simp add: return_book_def int_of_str_strip)

theorem return_book_already_returned_witness:
  "return_book (run init_state scenario_B) ''1'' (at_day 115) =
     (Some Already_returned, run init_state scenario_B)"
proof -
  let ?st = "run init_state scenario_B"
  let ?r = "\<lparr>issue_id = 1, rec_book_id = ''B1'', rec_member_id = ''M1'',
             issue_date = at_day 0, due_date = at_day 14, return_date = Some (at_day 114),
             fine_charged = 500\<rparr>"
  have h1: "isdigit (strip ''1'')" by code_simp
  have h2: "py_int ''1'' = Some 1" by code_simp
  have h3: "issues ?st 1 = Some ?r" by code_simp
  have h4: "return_date ?r \<noteq> None" by simp
  show ?thesis
    by (rule return_book_already_returned [OF h1 h2 h3 h4])
qed

lemma return_book_kinds:
  assumes "isdigit (strip s)"
  shows "fst (return_book st s now) \<in>
           {None, Some Issue_record_not_found, Some Already_returned, Some Record_missing,
            Some ValueError}"
  using assms
  by (auto simp: return_book_def split: option.splits)

lemma return_book_kinds_int:
  assumes "isdigit (strip s)" "py_int s \<noteq> None"
  shows "fst (return_book st s now) \<in>
           {None, Some Issue_record_not_found, Some Already_returned, Some Record_missing}"
  using assms
  by (auto simp: return_book_def int_of_str_strip split: option.splits)

lemma return_book_ValueError:
  "fst (return_book st s now) = Some ValueError \<longleftrightarrow> isdigit (strip s) \<and> py_int s = None"
  by (auto simp: return_book_def int_of_str_strip Let_def split: option.splits)

lemma return_book_not_blocked: "fst (return_book st s now) \<noteq> Some Member_is_blocked"
  by (auto simp: return_book_def Let_def split: option.splits)

lemma return_book_adds_fine:
  assumes "isdigit (strip s)" "py_int s = Some iid" "issues st iid = Some r"
    "return_date r = None" "books st (rec_book_id r) = Some b"
    "members st (rec_member_id r) = Some m"
  shows "fst (return_book st s now) = None \<and>
         (\<exists>m'. members (snd (return_book st s now)) (rec_member_id r) = Some m' \<and>
            outstanding_fine m' = outstanding_fine m + days_late r now * FINE_PER_DAY \<and>
            outstanding_fine m \<le> outstanding_fine m')"
  using assms
  by (simp add: return_book_commit [OF assms] return_effect_members days_late_def FINE_PER_DAY_def)

text \<open>
  Claim C9. A return is never refused because the member is blocked: no input
  makes \<open>return_book\<close> print the block message. For an issue id that
  \<^verbatim>\<open>isdigit()\<close> accepts and \<^verbatim>\<open>int()\<close> converts, the only complaints are "Issue
  record not found.", "Book already returned." and "Book or Member record
  missing."; when \<^verbatim>\<open>isdigit()\<close> accepts the id and \<^verbatim>\<open>int()\<close> does not, the
  function ends in an uncaught \<open>ValueError\<close>, and in no other case. An active
  record whose book and member exist is returned whatever the member's block
  status, and the member's outstanding fine grows by the fine of this return.
\<close>

theorem return_book_blocked_member:
  "fst (return_book st s now) \<noteq> Some Member_is_blocked \<and>
   (isdigit (strip s) \<and> py_int s \<noteq> None \<longrightarrow>
      fst (return_book st s now) \<in>
        {None, Some Issue_record_not_found, Some Already_returned, Some Record_missing}) \<and>
   (isdigit (strip s) \<longrightarrow>
      fst (return_book st s now) \<in>
        {None, Some Issue_record_not_found, Some Already_returned, Some Record_missing,
         Some ValueError}) \<and>
   (fst (return_book st s now) = Some ValueError \<longleftrightarrow> isdigit (strip s) \<and> py_int s = None) \<and>
   (\<forall>iid r b m. isdigit (strip s) \<and> py_int s = Some iid \<and> issues st iid = Some r \<and>
      return_date r = None \<and> books st (rec_book_id r) = Some b \<and>
      members st (rec_member_id r) = Some m \<longrightarrow>
      fst (return_book st s now) = None \<and>
      (\<exists>m'. members (snd (return_book st s now)) (rec_member_id r) = Some m' \<and>
         outstanding_fine m' = outstanding_fine m + days_late r now * FINE_PER_DAY \<and>
         outstanding_fine m \<le> outstanding_fine m'))"
proof -
  have 1: "fst (return_book st s now) \<noteq> Some Member_is_blocked"
    by (rule return_book_not_blocked)
  have 2: "isdigit (strip s) \<and> py_int s \<noteq> None \<longrightarrow>
      fst (return_book st s now) \<in>
        {None, Some Issue_record_not_found, Some Already_returned, Some Record_missing}"
    using return_book_kinds_int [of s st now] by blast
  have 3: "isdigit (strip s) \<longrightarrow>
      fst (return_book st s now) \<in>
        {None, Some Issue_record_not_found, Some Already_returned, Some Record_missing,
         Some ValueError}"
    using return_book_kinds [of s st now] by blast
  have 4: "fst (return_book st s now) = Some ValueError \<longleftrightarrow>
      isdigit (strip s) \<and> py_int s = None"
    by (rule return_book_ValueError)
  have 5: "\<forall>iid r b m. isdigit (strip s) \<and> py_int s = Some iid \<and> issues st iid = Some r \<and>
      return_date r = None \<and> books st (rec_book_id r) = Some b \<and>
      members st (rec_member_id r) = Some m \<longrightarrow>
      fst (return_book st s now) = None \<and>
      (\<exists>m'. members (snd (return_book st s now)) (rec_member_id r) = Some m' \<and>
         outstanding_fine m' = outstanding_fine m + days_late r now * FINE_PER_DAY \<and>
         outstanding_fine m \<le> outstanding_fine m')"
  proof (intro allI impI)
    fix iid r b m
    assume "isdigit (strip s) \<and> py_int s = Some iid \<and> issues st iid = Some r \<and>
      return_date r = None \<and> books st (rec_book_id r) = Some b \<and>
      members st (rec_member_id r) = Some m"
    then show "fst (return_book st s now) = None \<and>
      (\<exists>m'. members (snd (return_book st s now)) (rec_member_id r) = Some m' \<and>
         outstanding_fine m' = outstanding_fine m + days_late r now * FINE_PER_DAY \<and>
         outstanding_fine m \<le> outstanding_fine m')"
      using return_book_adds_fine [of s iid st r b m now] by blast
  qed
  from 1 2 3 4 5 show ?thesis by (intro conjI)
qed

theorem return_book_blocked_member_witness:
  "map_option blocked (members (run init_state scenario_B) ''M1'') = Some True \<and>
   map_option outstanding_fine (members (run init_state scenario_B) ''M1'') = Some 500 \<and>
   fst (return_book (run init_state scenario_B) ''2'' (at_day 120)) = None \<and>
   map_option outstanding_fine
     (members (snd (return_book (run init_state scenario_B) ''2'' (at_day 120))) ''M1'') =
     Some 1030 \<and>
   fst (return_book (run init_state scenario_B) ''7'' (at_day 120)) \<in>
     {None, Some Issue_record_not_found, Some Already_returned, Some Record_missing} \<and>
   fst (return_book (run init_state scenario_B) [CHR 0xB2] (at_day 120)) = Some ValueError"
proof -
  let ?st = "run init_state scenario_B"
  let ?r = "\<lparr>issue_id = 2, rec_book_id = ''B1'', rec_member_id = ''M1'',
             issue_date = at_day 0, due_date = at_day 14, return_date = None,
             fine_charged = 0\<rparr>"
  let ?m = "\<lparr>member_id = ''M1'', name = ''Name'', phone = ''Phone'', blocked = True,
            outstanding_fine = 500, borrowed_books = [''B1'']\<rparr>"
  let ?b = "\<lparr>book_id = ''B1'', title = ''Title'', author = ''Author'', category = ''Fiction'',
            total_copies = 2, available_copies = 1\<rparr>"
  have h1: "isdigit (strip ''2'')" by code_simp
  have h2: "py_int ''2'' = Some 2" by code_simp
  have h3: "issues ?st 2 = Some ?r" by code_simp
  have h4: "return_date ?r = None" by simp
  have h5: "books ?st (rec_book_id ?r) = Some ?b" by code_simp
  have h6: "members ?st (rec_member_id ?r) = Some ?m" by code_simp
  have m: "members ?st ''M1'' = Some ?m" using h6 by simp
  have k: "isdigit (strip ''7'') \<and> py_int ''7'' \<noteq> None" by code_simp
  have v: "isdigit (strip [CHR 0xB2]) \<and> py_int [CHR 0xB2] = None" by code_simp
  from return_book_blocked_member [of ?st "''2''" "at_day 120"] h1 h2 h3 h4 h5 h6
  have "fst (return_book ?st ''2'' (at_day 120)) = None \<and>
      (\<exists>m'. members (snd (return_book ?st ''2'' (at_day 120))) (rec_member_id ?r) = Some m' \<and>
         outstanding_fine m' = outstanding_fine ?m + days_late ?r (at_day 120) * FINE_PER_DAY \<and>
         outstanding_fine ?m \<le> outstanding_fine m')"
    by blast
  then have a: "fst (return_book ?st ''2'' (at_day 120)) = None \<and>
      map_option outstanding_fine
        (members (snd (return_book ?st ''2'' (at_day 120))) ''M1'') = Some 1030"
    by (auto simp: days_late_def date_diff_days_def at_day_def FINE_PER_DAY_def)
  from return_book_blocked_member [of ?st "''7''" "at_day 120"] k
  have b: "fst (return_book ?st ''7'' (at_day 120)) \<in>
      {None, Some Issue_record_not_found, Some Already_returned, Some Record_missing}"
    by blast
  from return_book_blocked_member [of ?st "[CHR 0xB2]" "at_day 120"] v
  have c: "fst (return_book ?st [CHR 0xB2] (at_day 120)) = Some ValueError"
    by blast
  from a b c show ?thesis by (simp add: m)
qed

section \<open>Issuing a book\<close>

lemma issue_effect_issues:
  "issues (issue_effect st bid mid b m now) =
     (issues st)(next_issue_id st \<mapsto>
        \<lparr>issue_id = next_issue_id st, rec_book_id = bid, rec_member_id = mid,
         issue_date = now, due_date = plus_days now ISSUE_DAYS, return_date = None,
         fine_charged = 0\<rparr>)"
  by (simp add: issue_effect_def Let_def)

lemma issue_effect_next:
  "next_issue_id (issue_effect st bid mid b m now) = next_issue_id st + 1"
  by (simp add: issue_effect_def Let_def)

lemma issue_effect_books:
  "books (issue_effect st bid mid b m now) =
     (books st)(bid \<mapsto> b\<lparr>available_copies := available_copies b - 1\<rparr>)"
  by (simp add: issue_effect_def Let_def)

lemma issue_effect_members:
  "members (issue_effect st bid mid b m now) =
     (members st)(mid \<mapsto> m\<lparr>borrowed_books := borrowed_books m @ [bid]\<rparr>)"
  by (simp add: issue_effect_def Let_def)

lemmas issue_effect_simps =
  issue_effect_issues issue_effect_next issue_effect_books issue_effect_members

lemma issue_book_cases:
  assumes "issue_book st bi mi now = (e, st')"
  obtains (unchanged) "e \<noteq> None" "st' = st"
  | (refreshed) m where "e \<noteq> None" "members st (strip mi) = Some m"
      "st' = st\<lparr>members := (members st)(strip mi \<mapsto> check_and_update_block_status m)\<rparr>"
  | (issued) b m where "e = None" "books st (strip bi) = Some b" "members st (strip mi) = Some m"
      "\<not> blocked (check_and_update_block_status m)" "0 < available_copies b"
      "st' = issue_effect st (strip bi) (strip mi) b (check_and_update_block_status m) now"
proof (cases "books st (strip bi)")
  case None
  with assms unchanged show ?thesis by (auto simp: issue_book_def)
next
  case b: (Some b)
  show ?thesis
  proof (cases "members st (strip mi)")
    case None
    with assms b unchanged show ?thesis by (auto simp: issue_book_def)
  next
    case m: (Some m)
    show ?thesis
    proof (cases "blocked (check_and_update_block_status m) \<or> available_copies b \<le> 0")
      case True
      with assms b m have "e \<noteq> None"
        "st' = st\<lparr>members := (members st)(strip mi \<mapsto> check_and_update_block_status m)\<rparr>"
        by (auto simp: issue_book_def Let_def split: if_splits)
      with m refreshed show ?thesis by blast
    next
      case False
      with assms b m have "e = None"
        "st' = issue_effect st (strip bi) (strip mi) b (check_and_update_block_status m) now"
        by (auto simp: issue_book_def Let_def split: if_splits)
      with b m False issued show ?thesis by auto
    qed
  qed
qed

text \<open>
  Claim C5. The checks of \<open>issue_book\<close> in their order: an unknown book gives
  "Book not found.", a known book with an unknown member "Member not found.",
  a member whose outstanding fine has reached the limit "Member is BLOCKED",
  and only then a book without available copies "No available copies to
  issue.". In each case the issue records and the counter are as before, and so
  are the books and the members, except that in the last two cases the member's
  block flag has been set to what the fine says.
\<close>

theorem issue_book_failures:
  "(books st (strip bi) = None \<longrightarrow> issue_book st bi mi now = (Some Book_not_found, st)) \<and>
   (\<forall>b. books st (strip bi) = Some b \<and> members st (strip mi) = None \<longrightarrow>
      issue_book st bi mi now = (Some Member_not_found, st)) \<and>
   (\<forall>b m. books st (strip bi) = Some b \<and> members st (strip mi) = Some m \<and>
      MAX_FINE_LIMIT \<le> outstanding_fine m \<longrightarrow>
      issue_book st bi mi now =
        (Some Member_is_blocked, st\<lparr>members := (members st)(strip mi \<mapsto> m\<lparr>blocked := True\<rparr>)\<rparr>)) \<and>
   (\<forall>b m. books st (strip bi) = Some b \<and> members st (strip mi) = Some m \<and>
      outstanding_fine m < MAX_FINE_LIMIT \<and> available_copies b \<le> 0 \<longrightarrow>
      issue_book st bi mi now =
        (Some No_available_copies, st\<lparr>members := (members st)(strip mi \<mapsto> m\<lparr>blocked := False\<rparr>)\<rparr>))"
  by (simp add: issue_book_def check_and_update_block_status_def)

theorem issue_book_failures_witness:
  "issue_book init_state ''B1'' ''M1'' (at_day 0) = (Some Book_not_found, init_state) \<and>
   issue_book (run init_state scenario_A) ''B1'' ''M9'' (at_day 0) =
     (Some Member_not_found, run init_state scenario_A) \<and>
   fst (issue_book (run init_state scenario_B) ''B1'' ''M1'' (at_day 115)) = Some Member_is_blocked \<and>
   fst (issue_book (run init_state scenario_A) ''B1'' ''M1'' (at_day 1)) = Some No_available_copies"
proof -
  let ?A = "run init_state scenario_A"
  let ?B = "run init_state scenario_B"
  have 1: "books init_state (strip ''B1'') = None" by code_simp
  have 2: "books ?A (strip ''B1'') = Some \<lparr>book_id = ''B1'', title = ''Title'', author = ''Author'',
      category = ''Fiction'', total_copies = 1, available_copies = 0\<rparr> \<and> members ?A (strip ''M9'') = None"
    by code_simp
  have 3: "books ?B (strip ''B1'') = Some \<lparr>book_id = ''B1'', title = ''Title'', author = ''Author'',
      category = ''Fiction'', total_copies = 2, available_copies = 1\<rparr> \<and>
      members ?B (strip ''M1'') = Some \<lparr>member_id = ''M1'', name = ''Name'', phone = ''Phone'',
        blocked = True, outstanding_fine = 500, borrowed_books = [''B1'']\<rparr> \<and>
      MAX_FINE_LIMIT \<le> outstanding_fine \<lparr>member_id = ''M1'', name = ''Name'', phone = ''Phone'',
        blocked = True, outstanding_fine = 500, borrowed_books = [''B1'']\<rparr>"
    by code_simp
  have 4: "books ?A (strip ''B1'') = Some \<lparr>book_id = ''B1'', title = ''Title'', author = ''Author'',
      category = ''Fiction'', total_copies = 1, available_copies = 0\<rparr> \<and>
      members ?A (strip ''M1'') = Some \<lparr>member_id = ''M1'', name = ''Name'', phone = ''Phone'',
        blocked = False, outstanding_fine = 0, borrowed_books = [''B1'']\<rparr> \<and>
      outstanding_fine \<lparr>member_id = ''M1'', name = ''Name'', phone = ''Phone'',
        blocked = False, outstanding_fine = 0, borrowed_books = [''B1'']\<rparr> < MAX_FINE_LIMIT \<and>
      available_copies \<lparr>book_id = ''B1'', title = ''Title'', author = ''Author'',
      category = ''Fiction'', total_copies = 1, available_copies = 0\<rparr> \<le> 0"
    by code_simp
  have a: "issue_book init_state ''B1'' ''M1'' (at_day 0) = (Some Book_not_found, init_state)"
    using issue_book_failures [of init_state "''B1''" "''M1''" "at_day 0"] 1 by blast
  have b: "issue_book ?A ''B1'' ''M9'' (at_day 0) = (Some Member_not_found, ?A)"
    using issue_book_failures [of ?A "''B1''" "''M9''" "at_day 0"] 2 by blast
  have c: "fst (issue_book ?B ''B1'' ''M1'' (at_day 115)) = Some Member_is_blocked"
    using issue_book_failures [of ?B "''B1''" "''M1''" "at_day 115"] 3 by (metis fst_conv)
  have d: "fst (issue_book ?A ''B1'' ''M1'' (at_day 1)) = Some No_available_copies"
    using issue_book_failures [of ?A "''B1''" "''M1''" "at_day 1"] 4 by (metis fst_conv)
  from a b c d show ?thesis by simp
qed

section \<open>Adding and updating books, registering members\<close>

lemma input_int_ge: "input_int minimum ls = Some v \<Longrightarrow> minimum \<le> v"
  by (induction ls) (auto split: option.splits if_splits)

lemma add_book_cases:
  assumes "add_book st i t a c n = (e, st')"
  obtains (unchanged) "e \<noteq> None" "st' = st"
  | (added) b where "e = None" "books st (strip i) = None" "1 \<le> total_copies b"
      "available_copies b = total_copies b" "st' = st\<lparr>books := (books st)(strip i \<mapsto> b)\<rparr>"
proof (cases "strip i \<in> dom (books st)")
  case True
  with assms unchanged show ?thesis by (auto simp: add_book_def)
next
  case False
  show ?thesis
  proof (cases "input_int 1 n")
    case None
    with assms False unchanged show ?thesis by (auto simp: add_book_def)
  next
    case (Some copies)
    let ?b = "\<lparr>book_id = strip i, title = strip t, author = strip a, category = strip c,
               total_copies = copies, available_copies = copies\<rparr>"
    have "e = None" "st' = st\<lparr>books := (books st)(strip i \<mapsto> ?b)\<rparr>"
      using assms False Some by (auto simp: add_book_def Let_def)
    moreover have "1 \<le> total_copies ?b" using input_int_ge [OF Some] by simp
    moreover have "books st (strip i) = None" using False by (simp add: domIff)
    ultimately show ?thesis by (intro added [of ?b]) simp_all
  qed
qed

lemma update_book_cases:
  assumes "update_book st i t a c n = (e, st')"
  obtains (unchanged) "st' = st"
  | (updated) b b' where "books st (strip i) = Some b"
      "total_copies b' - available_copies b' = total_copies b - available_copies b"
      "0 \<le> available_copies b \<longrightarrow> 0 \<le> available_copies b'"
      "st' = st\<lparr>books := (books st)(strip i \<mapsto> b')\<rparr>"
proof (cases "books st (strip i)")
  case None
  with assms unchanged show ?thesis by (auto simp: update_book_def)
next
  case (Some b)
  have "\<exists>b'. total_copies b' - available_copies b' = total_copies b - available_copies b \<and>
      (0 \<le> available_copies b \<longrightarrow> 0 \<le> available_copies b') \<and>
      st' = st\<lparr>books := (books st)(strip i \<mapsto> b')\<rparr>"
  proof (cases "snd (update_book st i t a c n) = st")
    case True
    with assms have "st' = st" by simp
    then have "st' = st\<lparr>books := (books st)(strip i \<mapsto> b)\<rparr>"
      using Some by (simp add: fun_upd_idem)
    then show ?thesis by blast
  next
    case False
    obtain b' where b': "books st' (strip i) = Some b'"
      using assms Some by (auto simp: update_book_def Let_def split: if_splits option.splits)
    have "st' = st\<lparr>books := (books st)(strip i \<mapsto> b')\<rparr>"
      using assms Some b' by (auto simp: update_book_def Let_def split: if_splits option.splits)
    moreover have "total_copies b' - available_copies b' = total_copies b - available_copies b"
      using assms Some b' by (auto simp: update_book_def Let_def split: if_splits option.splits)
    moreover have "0 \<le> available_copies b \<longrightarrow> 0 \<le> available_copies b'"
      using assms Some b' by (auto simp: update_book_def Let_def split: if_splits option.splits)
    ultimately show ?thesis by blast
  qed
  with Some updated show ?thesis by blast
qed

lemma register_member_cases:
  assumes "register_member st i n p = (e, st')"
  obtains (unchanged) "e \<noteq> None" "st' = st"
  | (added) m where "e = None" "members st (strip i) = None" "\<not> blocked m"
      "outstanding_fine m = 0" "borrowed_books m = []"
      "st' = st\<lparr>members := (members st)(strip i \<mapsto> m)\<rparr>"
proof (cases "strip i \<in> dom (members st)")
  case True
  with assms unchanged show ?thesis by (auto simp: register_member_def)
next
  case False
  let ?m = "\<lparr>member_id = strip i, name = strip n, phone = strip p, blocked = False,
             outstanding_fine = 0, borrowed_books = []\<rparr>"
  have "e = None" "st' = st\<lparr>members := (members st)(strip i \<mapsto> ?m)\<rparr>"
    using assms False by (auto simp: register_member_def Let_def)
  moreover have "members st (strip i) = None" using False by (simp add: domIff)
  ultimately show ?thesis by (intro added [of ?m]) simp_all
qed

text \<open>
  Claim C6. For a book in the catalogue and a new total that \<^verbatim>\<open>int()\<close> accepts:
  below the number of issued copies the update complains "Cannot reduce below
  number of currently issued copies." and both counts stay; otherwise the total
  becomes the new value, the available count moves by the same difference, and
  the number of issued copies is the same as before.
\<close>

theorem update_book_copies:
  assumes "books st (strip bi) = Some b" "py_int ni = Some n"
  shows "(n < total_copies b - available_copies b \<longrightarrow>
            fst (update_book st bi ti ai ci ni) = Some Cannot_reduce \<and>
            (\<exists>b'. books (snd (update_book st bi ti ai ci ni)) (strip bi) = Some b' \<and>
               total_copies b' = total_copies b \<and> available_copies b' = available_copies b)) \<and>
         (total_copies b - available_copies b \<le> n \<longrightarrow>
            fst (update_book st bi ti ai ci ni) = None \<and>
            (\<exists>b'. books (snd (update_book st bi ti ai ci ni)) (strip bi) = Some b' \<and>
               total_copies b' = n \<and>
               available_copies b' - available_copies b = n - total_copies b \<and>
               total_copies b' - available_copies b' = total_copies b - available_copies b))"
  using assms py_int_Some_nonempty [OF assms(2)]
  by (simp add: update_book_def int_of_str_strip Let_def)

theorem update_book_copies_witness:
  "fst (update_book (run init_state scenario_D) ''B1'' '''' '''' '''' ''0'') = Some Cannot_reduce \<and>
   map_option total_copies
     (books (snd (update_book (run init_state scenario_D) ''B1'' '''' '''' '''' ''0'')) ''B1'') = Some 3 \<and>
   fst (update_book (run init_state scenario_D) ''B1'' '''' '''' '''' ''5'') = None \<and>
   map_option total_copies
     (books (snd (update_book (run init_state scenario_D) ''B1'' '''' '''' '''' ''5'')) ''B1'') = Some 5 \<and>
   map_option available_copies
     (books (snd (update_book (run init_state scenario_D) ''B1'' '''' '''' '''' ''5'')) ''B1'') = Some 3"
proof -
  let ?st = "run init_state scenario_D"
  let ?b = "\<lparr>book_id = ''B1'', title = ''Title'', author = ''Author'', category = ''Fiction'',
            total_copies = 3, available_copies = 1\<rparr>"
  have s: "strip ''B1'' = ''B1''" by code_simp
  have h1: "books ?st (strip ''B1'') = Some ?b" by code_simp
  have h0: "py_int ''0'' = Some 0" by code_simp
  have h5: "py_int ''5'' = Some 5" by code_simp
  from update_book_copies [OF h1 h0, of "''''" "''''" "''''"]
    update_book_copies [OF h1 h5, of "''''" "''''" "''''"]
  show ?thesis by (auto simp: s)
qed

text \<open>
  Claim C10. \<open>update_book\<close> is not atomic: when the new total is refused,
  because it is not an integer or because it is below the number of issued
  copies, the title, author and category given in the same call (those that are
  not blank) have been stored all the same.
\<close>

theorem update_book_not_atomic:
  assumes "books st (strip bi) = Some b" "strip ni \<noteq> []"
    "py_int ni = None \<or> (\<exists>n. py_int ni = Some n \<and> n < total_copies b - available_copies b)"
  shows "fst (update_book st bi ti ai ci ni) =
           (if py_int ni = None then Some Invalid_total else Some Cannot_reduce) \<and>
         books (snd (update_book st bi ti ai ci ni)) (strip bi) =
           Some (b\<lparr>title := (if strip ti \<noteq> [] then strip ti else title b),
                   author := (if strip ai \<noteq> [] then strip ai else author b),
                   category := (if strip ci \<noteq> [] then strip ci else category b)\<rparr>)"
  using assms
  by (auto simp: update_book_def int_of_str_strip Let_def)

theorem update_book_not_atomic_witness:
  "fst (update_book (run init_state scenario_D) ''B1'' ''New title'' '''' ''Science'' ''0'') =
     Some Cannot_reduce \<and>
   books (snd (update_book (run init_state scenario_D) ''B1'' ''New title'' '''' ''Science'' ''0''))
     ''B1'' =
     Some \<lparr>book_id = ''B1'', title = ''New title'', author = ''Author'', category = ''Science'',
           total_copies = 3, available_copies = 1\<rparr> \<and>
   fst (update_book (run init_state scenario_D) ''B1'' ''New title'' '''' ''Science'' ''many'') =
     Some Invalid_total \<and>
   books (snd (update_book (run init_state scenario_D) ''B1'' ''New title'' '''' ''Science'' ''many''))
     ''B1'' =
     Some \<lparr>book_id = ''B1'', title = ''New title'', author = ''Author'', category = ''Science'',
           total_copies = 3, available_copies = 1\<rparr>"
proof -
  let ?st = "run init_state scenario_D"
  let ?b = "\<lparr>book_id = ''B1'', title = ''Title'', author = ''Author'', category = ''Fiction'',
            total_copies = 3, available_copies = 1\<rparr>"
  have s: "strip ''B1'' = ''B1''" "strip ''New title'' = ''New title''" "strip '''' = ''''"
    "strip ''Science'' = ''Science''"
    by code_simp+
  have h1: "books ?st (strip ''B1'') = Some ?b" by code_simp
  have h2: "strip ''0'' \<noteq> []" "strip ''many'' \<noteq> []" by code_simp+
  have h3: "py_int ''0'' = None \<or>
      (\<exists>n. py_int ''0'' = Some n \<and> n < total_copies ?b - available_copies ?b)"
  proof -
    have "py_int ''0'' = Some 0" by code_simp
    then show ?thesis by simp
  qed
  have h4: "py_int ''many'' = None \<or>
      (\<exists>n. py_int ''many'' = Some n \<and> n < total_copies ?b - available_copies ?b)"
  proof -
    have "py_int ''many'' = None" by code_simp
    then show ?thesis by simp
  qed
  have p: "py_int ''0'' \<noteq> None" "py_int ''many'' = None" by code_simp+
  from update_book_not_atomic [OF h1 h2(1) h3, of "''New title''" "''''" "''Science''"]
    update_book_not_atomic [OF h1 h2(2) h4, of "''New title''" "''''" "''Science''"]
  show ?thesis using p by (simp add: s)
qed

section \<open>Counting the active issues\<close>

lemma length_filter_map_filter:
  "length (filter Q (List.map_filter f xs)) =
     length (filter (\<lambda>i. case f i of None \<Rightarrow> False | Some r \<Rightarrow> Q r) xs)"
  by (induction xs) (auto simp: List.map_filter_simps split: option.splits)

lemma finite_active_ids: "finite (active_ids n f Q)"
  by (rule finite_subset [of _ "{1..<n}"]) (auto simp: active_ids_def)

lemma count_active_card:
  "length (filter Q (active_issues st)) = card (active_ids (next_issue_id st) (issues st) Q)"
proof -
  let ?A = "\<lambda>i. case issues st i of None \<Rightarrow> False | Some r \<Rightarrow> return_date r = None \<and> Q r"
  have "length (filter Q (active_issues st)) =
      length (filter (\<lambda>r. return_date r = None \<and> Q r) (issue_values st))"
    by (simp add: active_issues_def)
  also have "\<dots> = length (filter ?A [1..next_issue_id st - 1])"
    by (simp add: issue_values_def length_filter_map_filter)
  also have "\<dots> = card ({i. ?A i} \<inter> set [1..next_issue_id st - 1])"
    by (rule distinct_length_filter) simp
  also have "{i. ?A i} \<inter> set [1..next_issue_id st - 1] = active_ids (next_issue_id st) (issues st) Q"
    by (auto simp: active_ids_def split: option.splits)
  finally show ?thesis .
qed

lemma active_ids_insert:
  assumes "1 \<le> n" "return_date r = None"
  shows "active_ids (n + 1) (f(n \<mapsto> r)) Q = (if Q r then insert n (active_ids n f Q) else active_ids n f Q)"
proof (cases "Q r")
  case True
  have "active_ids (n + 1) (f(n \<mapsto> r)) Q = insert n (active_ids n f Q)"
  proof (rule set_eqI)
    fix i
    show "i \<in> active_ids (n + 1) (f(n \<mapsto> r)) Q \<longleftrightarrow> i \<in> insert n (active_ids n f Q)"
      using assms True by (cases "i = n") (auto simp: active_ids_def)
  qed
  with True show ?thesis by simp
next
  case False
  have "active_ids (n + 1) (f(n \<mapsto> r)) Q = active_ids n f Q"
  proof (rule set_eqI)
    fix i
    show "i \<in> active_ids (n + 1) (f(n \<mapsto> r)) Q \<longleftrightarrow> i \<in> active_ids n f Q"
      using assms False by (cases "i = n") (auto simp: active_ids_def)
  qed
  with False show ?thesis by simp
qed

lemma card_active_ids_insert:
  assumes "1 \<le> n" "return_date r = None"
  shows "card (active_ids (n + 1) (f(n \<mapsto> r)) Q) = card (active_ids n f Q) + (if Q r then 1 else 0)"
proof -
  have "n \<notin> active_ids n f Q" by (simp add: active_ids_def)
  then show ?thesis
    by (simp add: active_ids_insert [OF assms] finite_active_ids)
qed

lemma active_ids_remove:
  assumes "return_date r' \<noteq> None"
  shows "active_ids n (f(i \<mapsto> r')) Q = active_ids n f Q - {i}"
proof (rule set_eqI)
  fix j
  show "j \<in> active_ids n (f(i \<mapsto> r')) Q \<longleftrightarrow> j \<in> active_ids n f Q - {i}"
    using assms by (cases "j = i") (simp_all add: active_ids_def)
qed

lemma card_active_ids_remove:
  assumes "1 \<le> i" "i < n" "f i = Some r" "return_date r = None" "return_date r' \<noteq> None"
  shows "card (active_ids n f Q) = card (active_ids n (f(i \<mapsto> r')) Q) + (if Q r then 1 else 0)"
proof (cases "Q r")
  case True
  then have "i \<in> active_ids n f Q"
    using assms by (simp add: active_ids_def)
  then have "card (active_ids n f Q) = Suc (card (active_ids n f Q - {i}))"
    by (intro card.remove finite_active_ids)
  then show ?thesis
    using True by (simp add: active_ids_remove [OF assms(5)])
next
  case False
  then have "i \<notin> active_ids n f Q"
    using assms by (simp add: active_ids_def)
  then show ?thesis
    using False by (simp add: active_ids_remove [OF assms(5)])
qed


lemma issued_copies_card:
  "issued_copies st bid =
     card (active_ids (next_issue_id st) (issues st) (\<lambda>r. rec_book_id r = bid))"
  by (simp add: issued_copies_def count_active_card)

lemma active_loans_card:
  "active_loans st mid bid =
     card (active_ids (next_issue_id st) (issues st)
       (\<lambda>r. rec_member_id r = mid \<and> rec_book_id r = bid))"
  by (simp add: active_loans_def count_active_card)

lemma active_ids_empty:
  assumes "\<And>i r. f i = Some r \<Longrightarrow> \<not> Q r"
  shows "active_ids n f Q = {}"
  using assms by (auto simp: active_ids_def)

section \<open>What every reachable state satisfies\<close>

lemmas ok_defs = stores_ok_def ids_ok_def refs_ok_def block_ok_def avail_ok_def copies_ok_def
  borrowed_ok_def
  issued_copies_card active_loans_card

lemma stores_ok_init: "stores_ok init_state"
  by (simp add: ok_defs init_state_def active_ids_def)

lemma stores_ok_books_upd:
  assumes "stores_ok st" "books st bid = Some b"
    "total_copies b' - available_copies b' = total_copies b - available_copies b"
    "0 \<le> available_copies b \<longrightarrow> 0 \<le> available_copies b'"
  shows "stores_ok (st\<lparr>books := (books st)(bid \<mapsto> b')\<rparr>)"
  using assms by (auto simp: ok_defs)

lemma stores_ok_books_new:
  assumes "stores_ok st" "books st bid = None" "available_copies b = total_copies b"
    "1 \<le> total_copies b"
  shows "stores_ok (st\<lparr>books := (books st)(bid \<mapsto> b)\<rparr>)"
proof -
  have "active_ids (next_issue_id st) (issues st) (\<lambda>r. rec_book_id r = bid) = {}"
    using assms(1,2) by (intro active_ids_empty) (auto simp: stores_ok_def refs_ok_def)
  with assms show ?thesis by (auto simp: ok_defs)
qed

lemma stores_ok_members_new:
  assumes "stores_ok st" "members st mid = None" "\<not> blocked m" "outstanding_fine m = 0"
    "borrowed_books m = []"
  shows "stores_ok (st\<lparr>members := (members st)(mid \<mapsto> m)\<rparr>)"
proof -
  have "active_ids (next_issue_id st) (issues st) (\<lambda>r. rec_member_id r = mid \<and> rec_book_id r = bid) = {}" for bid
    using assms(1,2) by (intro active_ids_empty) (auto simp: stores_ok_def refs_ok_def)
  with assms show ?thesis by (auto simp: ok_defs MAX_FINE_LIMIT_def)
qed

lemma stores_ok_refresh:
  assumes "stores_ok st" "members st mid = Some m"
  shows "stores_ok (st\<lparr>members := (members st)(mid \<mapsto> check_and_update_block_status m)\<rparr>)"
  using assms by (auto simp: ok_defs check_and_update_block_status_def)

lemma stores_ok_issue_effect:
  assumes ok: "stores_ok st" and b: "books st bid = Some b" and m0: "members st mid = Some m0"
    and m: "m = check_and_update_block_status m0" and a: "0 < available_copies b"
  shows "stores_ok (issue_effect st bid mid b m now)"
proof -
  let ?st' = "issue_effect st bid mid b m now"
  from ok have n: "1 \<le> next_issue_id st" by (simp add: stores_ok_def ids_ok_def)
  have cnt: "card (active_ids (next_issue_id ?st') (issues ?st') Q) =
      card (active_ids (next_issue_id st) (issues st) Q) +
      (if Q \<lparr>issue_id = next_issue_id st, rec_book_id = bid, rec_member_id = mid,
         issue_date = now, due_date = plus_days now ISSUE_DAYS, return_date = None,
         fine_charged = 0\<rparr> then 1 else 0)" for Q
    unfolding issue_effect_issues issue_effect_next
    by (rule card_active_ids_insert [OF n]) simp
  have "ids_ok ?st'"
  proof -
    have "1 \<le> i \<and> i < next_issue_id st + 1 \<and> issue_id r = i"
      if "issues ?st' i = Some r" for i r
    proof (cases "i = next_issue_id st")
      case True
      with that n show ?thesis by (auto simp: issue_effect_issues)
    next
      case False
      with that have "issues st i = Some r" by (simp add: issue_effect_issues)
      with ok have "1 \<le> i \<and> i < next_issue_id st \<and> issue_id r = i"
        by (simp add: stores_ok_def ids_ok_def)
      then show ?thesis by simp
    qed
    with n show ?thesis by (simp add: ids_ok_def issue_effect_next)
  qed
  moreover have "refs_ok ?st'"
    using ok b m0 by (auto simp: stores_ok_def refs_ok_def issue_effect_simps split: if_splits)
  moreover have "block_ok ?st'"
    using ok m by (auto simp: stores_ok_def block_ok_def issue_effect_simps
        check_and_update_block_status_def split: if_splits)
  moreover have "avail_ok ?st'"
    using ok a by (auto simp: stores_ok_def avail_ok_def issue_effect_books split: if_splits)
  moreover have "copies_ok ?st'"
    using ok b unfolding stores_ok_def copies_ok_def issued_copies_card cnt
    by (auto simp: issue_effect_books split: if_splits)
  moreover have "borrowed_ok ?st'"
    using ok m0 m unfolding stores_ok_def borrowed_ok_def active_loans_card cnt
    by (auto simp: issue_effect_members check_and_update_block_status_def split: if_splits)
  ultimately show ?thesis by (simp add: stores_ok_def)
qed

lemma stores_ok_return_effect:
  assumes ok: "stores_ok st" and r: "issues st iid = Some r" "return_date r = None"
    and b: "books st (rec_book_id r) = Some b" and m: "members st (rec_member_id r) = Some m"
  shows "stores_ok (return_effect st iid r b m now)"
proof -
  let ?st' = "return_effect st iid r b m now"
  from ok r have range: "1 \<le> iid" "iid < next_issue_id st" "issue_id r = iid"
    by (auto simp: stores_ok_def ids_ok_def)
  have cnt: "card (active_ids (next_issue_id st) (issues st) Q) =
      card (active_ids (next_issue_id ?st') (issues ?st') Q) + (if Q r then 1 else 0)" for Q
    unfolding return_effect_issues return_effect_next
    by (rule card_active_ids_remove [where f = "issues st", OF range(1,2) r]) simp
  have "ids_ok ?st'"
    using ok range by (auto simp: stores_ok_def ids_ok_def return_effect_issues return_effect_next
        split: if_splits)
  moreover have "refs_ok ?st'"
    using ok r b m by (auto simp: stores_ok_def refs_ok_def return_effect_issues
        return_effect_books return_effect_members split: if_splits)
  moreover have "block_ok ?st'"
    using ok by (auto simp: stores_ok_def block_ok_def return_effect_members split: if_splits)
  moreover have "avail_ok ?st'"
    using ok b by (auto simp: stores_ok_def avail_ok_def return_effect_books split: if_splits)
  moreover have "copies_ok ?st'"
  proof -
    have "total_copies b' - available_copies b' =
        int (card (active_ids (next_issue_id ?st') (issues ?st') (\<lambda>r. rec_book_id r = bid)))"
      if "books ?st' bid = Some b'" for bid b'
    proof -
      have old: "total_copies b0 - available_copies b0 =
          int (card (active_ids (next_issue_id st) (issues st) (\<lambda>r. rec_book_id r = bid)))"
        if "books st bid = Some b0" for b0
        using ok that by (simp add: stores_ok_def copies_ok_def issued_copies_card)
      show ?thesis
      proof (cases "bid = rec_book_id r")
        case True
        with that have "b' = b\<lparr>available_copies := available_copies b + 1\<rparr>"
          by (simp add: return_effect_books)
        with old [of b] b True cnt [of "\<lambda>r. rec_book_id r = bid"] show ?thesis by simp
      next
        case False
        with that have "books st bid = Some b'" by (simp add: return_effect_books)
        with old [of b'] False cnt [of "\<lambda>r. rec_book_id r = bid"] show ?thesis by simp
      qed
    qed
    then show ?thesis by (simp add: copies_ok_def issued_copies_card)
  qed
  moreover have "borrowed_ok ?st'"
  proof -
    have "count_list (borrowed_books m') bid =
        card (active_ids (next_issue_id ?st') (issues ?st')
          (\<lambda>r. rec_member_id r = mid \<and> rec_book_id r = bid))"
      if "members ?st' mid = Some m'" for mid m' bid
    proof -
      let ?Q = "\<lambda>r. rec_member_id r = mid \<and> rec_book_id r = bid"
      have old: "count_list (borrowed_books m0) bid =
          card (active_ids (next_issue_id st) (issues st) ?Q)"
        if "members st mid = Some m0" for m0
        using ok that by (simp add: stores_ok_def borrowed_ok_def active_loans_card)
      show ?thesis
      proof (cases "mid = rec_member_id r")
        case True
        with that have m': "borrowed_books m' = remove1 (rec_book_id r) (borrowed_books m)"
          by (auto simp: return_effect_members)
        show ?thesis
        proof (cases "bid = rec_book_id r")
          case bid: True
          from old [of m] m True bid cnt [of ?Q]
          have "count_list (borrowed_books m) bid = card (active_ids (next_issue_id ?st') (issues ?st') ?Q) + 1"
            by simp
          moreover from this have "bid \<in> set (borrowed_books m)"
            by (metis add_is_0 count_list_0_iff zero_neq_one)
          ultimately show ?thesis
            using bid by (simp add: m' count_list_remove1)
        next
          case False
          with old [of m] m True cnt [of ?Q] show ?thesis
            by (simp add: m' count_list_remove1)
        qed
      next
        case False
        with that have "members st mid = Some m'" by (simp add: return_effect_members)
        with old [of m'] False cnt [of ?Q] show ?thesis by simp
      qed
    qed
    then show ?thesis by (simp add: borrowed_ok_def active_loans_card)
  qed
  ultimately show ?thesis by (simp add: stores_ok_def)
qed


lemma stores_ok_step:
  assumes "stores_ok st"
  shows "stores_ok (step st x)"
proof (cases x)
  case (Add_book i t a c n)
  obtain e st' where p: "add_book st i t a c n = (e, st')" by (cases "add_book st i t a c n")
  from p have "stores_ok st'"
    using assms by (cases rule: add_book_cases) (simp_all add: stores_ok_books_new)
  with p Add_book show ?thesis by (simp add: step_def)
next
  case (Update_book i t a c n)
  obtain e st' where p: "update_book st i t a c n = (e, st')" by (cases "update_book st i t a c n")
  from p have "stores_ok st'"
    using assms by (cases rule: update_book_cases) (simp_all add: stores_ok_books_upd)
  with p Update_book show ?thesis by (simp add: step_def)
next
  case (Register_member i n ph)
  obtain e st' where p: "register_member st i n ph = (e, st')"
    by (cases "register_member st i n ph")
  from p have "stores_ok st'"
    using assms by (cases rule: register_member_cases) (simp_all add: stores_ok_members_new)
  with p Register_member show ?thesis by (simp add: step_def)
next
  case (Issue_book bi mi now)
  obtain e st' where p: "issue_book st bi mi now = (e, st')" by (cases "issue_book st bi mi now")
  from p have "stores_ok st'"
    using assms
    by (cases rule: issue_book_cases) (simp_all add: stores_ok_refresh stores_ok_issue_effect)
  with p Issue_book show ?thesis by (simp add: step_def)
next
  case (Return_book s now)
  obtain e st' where p: "return_book st s now = (e, st')" by (cases "return_book st s now")
  from return_book_cases [OF p] have "stores_ok st'"
    using assms by (auto simp: stores_ok_return_effect)
  with p Return_book show ?thesis by (simp add: step_def)
qed

lemma stores_ok_run: "stores_ok st \<Longrightarrow> stores_ok (run st xs)"
  unfolding run_def by (induction xs arbitrary: st) (simp_all add: stores_ok_step)

lemma stores_ok_reachable: "stores_ok (run init_state xs)"
  by (rule stores_ok_run [OF stores_ok_init])

text \<open>
  In a reachable state \<open>issue_values\<close> leaves no record out: it lists what is
  stored in \<open>issues\<close>.
\<close>

lemma set_map_filter_eq: "set (List.map_filter f xs) = {y. \<exists>x\<in>set xs. f x = Some y}"
  by (induction xs) (auto split: option.splits)

lemma issue_values_complete:
  "set (issue_values (run init_state xs)) = ran (issues (run init_state xs))"
proof -
  let ?st = "run init_state xs"
  have "ids_ok ?st" using stores_ok_reachable [of xs] by (simp add: stores_ok_def)
  then have "\<And>i r. issues ?st i = Some r \<Longrightarrow> 1 \<le> i \<and> i \<le> next_issue_id ?st - 1"
    by (auto simp: ids_ok_def)
  then show ?thesis
    by (auto simp: issue_values_def set_map_filter_eq ran_def)
qed

section \<open>A successful issue\<close>

text \<open>
  Claim C1. In a state reached from the empty stores, when the book and the
  member exist, the member is not blocked and a copy is available,
  \<open>issue_book\<close> succeeds; it stores exactly one new record, under the id
  \<open>next_issue_id\<close>, which is unused and above every id in use (the counter
  starts at 1 and goes up by one); the record has the issue date \<open>now\<close>, the due
  date \<open>now + ISSUE_DAYS\<close> and no return date; the book has one available copy
  less, and not fewer than none; the book id is appended to the member's list.
\<close>

theorem issue_book_success:
  assumes "st = run init_state xs"
    "books st (strip bi) = Some b" "members st (strip mi) = Some m"
    "\<not> blocked m" "0 < available_copies b"
  shows "fst (issue_book st bi mi now) = None \<and>
         next_issue_id init_state = 1 \<and> 1 \<le> next_issue_id st \<and>
         issues st (next_issue_id st) = None \<and>
         (\<forall>i\<in>dom (issues st). i < next_issue_id st) \<and>
         issues (snd (issue_book st bi mi now)) =
           (issues st)(next_issue_id st \<mapsto>
              \<lparr>issue_id = next_issue_id st, rec_book_id = strip bi, rec_member_id = strip mi,
               issue_date = now, due_date = plus_days now ISSUE_DAYS, return_date = None,
               fine_charged = 0\<rparr>) \<and>
         next_issue_id (snd (issue_book st bi mi now)) = next_issue_id st + 1 \<and>
         books (snd (issue_book st bi mi now)) =
           (books st)(strip bi \<mapsto> b\<lparr>available_copies := available_copies b - 1\<rparr>) \<and>
         0 \<le> available_copies b - 1 \<and>
         members (snd (issue_book st bi mi now)) =
           (members st)(strip mi \<mapsto> m\<lparr>borrowed_books := borrowed_books m @ [strip bi]\<rparr>)"
proof -
  have ok: "stores_ok st" unfolding assms(1) by (rule stores_ok_reachable)
  then have law: "blocked m = (MAX_FINE_LIMIT \<le> outstanding_fine m)"
    using assms(3) by (simp add: stores_ok_def block_ok_def)
  with assms(4) have chk: "check_and_update_block_status m = m"
    by (simp add: check_and_update_block_status_def)
  have run: "issue_book st bi mi now = (None, issue_effect st (strip bi) (strip mi) b m now)"
    using assms(2-5) by (simp add: issue_book_def chk)
  have ids: "1 \<le> next_issue_id st"
    "\<And>i r. issues st i = Some r \<Longrightarrow> i < next_issue_id st"
    using ok by (simp_all add: stores_ok_def ids_ok_def)
  have fresh: "issues st (next_issue_id st) = None" "\<forall>i\<in>dom (issues st). i < next_issue_id st"
    "1 \<le> next_issue_id st"
  proof -
    show "issues st (next_issue_id st) = None"
      using ids(2) [of "next_issue_id st"] by (cases "issues st (next_issue_id st)") auto
    show "\<forall>i\<in>dom (issues st). i < next_issue_id st"
      using ids(2) by auto
    show "1 \<le> next_issue_id st" by (rule ids(1))
  qed
  show ?thesis
    using fresh assms(5) by (simp add: run issue_effect_simps init_state_def)
qed

theorem issue_book_success_witness:
  "fst (issue_book (run init_state (take 2 scenario_A)) ''B1'' ''M1'' (at_day 0)) = None \<and>
   issues (snd (issue_book (run init_state (take 2 scenario_A)) ''B1'' ''M1'' (at_day 0))) 1 =
     Some \<lparr>issue_id = 1, rec_book_id = ''B1'', rec_member_id = ''M1'', issue_date = at_day 0,
           due_date = at_day 14, return_date = None, fine_charged = 0\<rparr> \<and>
   next_issue_id (snd (issue_book (run init_state (take 2 scenario_A)) ''B1'' ''M1'' (at_day 0))) = 2 \<and>
   map_option available_copies
     (books (snd (issue_book (run init_state (take 2 scenario_A)) ''B1'' ''M1'' (at_day 0))) ''B1'') = Some 0 \<and>
   map_option borrowed_books
     (members (snd (issue_book (run init_state (take 2 scenario_A)) ''B1'' ''M1'' (at_day 0))) ''M1'') = Some [''B1'']"
proof -
  let ?st = "run init_state (take 2 scenario_A)"
  let ?b = "\<lparr>book_id = ''B1'', title = ''Title'', author = ''Author'', category = ''Fiction'',
            total_copies = 1, available_copies = 1\<rparr>"
  let ?m = "\<lparr>member_id = ''M1'', name = ''Name'', phone = ''Phone'', blocked = False,
            outstanding_fine = 0, borrowed_books = []\<rparr>"
  have s: "strip ''B1'' = ''B1''" "strip ''M1'' = ''M1''" by code_simp+
  have h2: "books ?st (strip ''B1'') = Some ?b" by code_simp
  have h3: "members ?st (strip ''M1'') = Some ?m" by code_simp
  have h4: "\<not> blocked ?m" by simp
  have h5: "0 < available_copies ?b" by simp
  have n: "next_issue_id ?st = 1" by code_simp
  from issue_book_success [OF refl h2 h3 h4 h5, of "at_day 0"]
  show ?thesis
    by (simp add: s n at_day_def plus_days_def ISSUE_DAYS_def)
qed

section \<open>The blocking law\<close>

lemma check_block_law:
  "blocked (check_and_update_block_status m) = (MAX_FINE_LIMIT \<le> outstanding_fine m)"
  "outstanding_fine (check_and_update_block_status m) = outstanding_fine m"
  by (simp_all add: check_and_update_block_status_def)

lemma issue_book_recheck:
  assumes "books st (strip bi) = Some b" "members st (strip mi) = Some m0"
  shows "\<exists>m'. members (snd (issue_book st bi mi now)) (strip mi) = Some m' \<and>
           outstanding_fine m' = outstanding_fine m0 \<and>
           blocked m' = (MAX_FINE_LIMIT \<le> outstanding_fine m')"
  using assms
  by (simp add: issue_book_def Let_def issue_effect_members check_block_law)

lemma return_book_block_law:
  assumes "return_book st s now = (None, st')"
  shows "\<exists>iid r m0 m'. py_int s = Some iid \<and> issues st iid = Some r \<and>
           members st (rec_member_id r) = Some m0 \<and> members st' (rec_member_id r) = Some m' \<and>
           outstanding_fine m' = outstanding_fine m0 + days_late r now * FINE_PER_DAY \<and>
           blocked m' = (MAX_FINE_LIMIT \<le> outstanding_fine m')"
proof -
  from return_book_cases [OF assms] obtain iid r b m where
    *: "py_int s = Some iid" "issues st iid = Some r" "return_date r = None"
       "members st (rec_member_id r) = Some m" "st' = return_effect st iid r b m now"
    by auto
  show ?thesis
    using * by (simp add: return_effect_members days_late_def)
qed

lemma step_block_law:
  assumes "members (step st x) mid = Some m'"
  shows "(\<exists>m0. members st mid = Some m0 \<and> blocked m' = blocked m0 \<and>
            outstanding_fine m' = outstanding_fine m0) \<or>
         blocked m' = (MAX_FINE_LIMIT \<le> outstanding_fine m')"
proof -
  let ?P = "\<lambda>st'. members st' mid = Some m' \<longrightarrow>
      (\<exists>m0. members st mid = Some m0 \<and> blocked m' = blocked m0 \<and>
         outstanding_fine m' = outstanding_fine m0) \<or>
      blocked m' = (MAX_FINE_LIMIT \<le> outstanding_fine m')"
  have "?P (step st x)"
  proof (cases x)
    case (Add_book i t a c n)
    obtain e st' where p: "add_book st i t a c n = (e, st')" by (cases "add_book st i t a c n")
    from p have "members st' = members st" by (cases rule: add_book_cases) simp_all
    with p Add_book show ?thesis by (simp add: step_def)
  next
    case (Update_book i t a c n)
    obtain e st' where p: "update_book st i t a c n = (e, st')"
      by (cases "update_book st i t a c n")
    from p have "members st' = members st" by (cases rule: update_book_cases) simp_all
    with p Update_book show ?thesis by (simp add: step_def)
  next
    case (Register_member i n ph)
    obtain e st' where p: "register_member st i n ph = (e, st')"
      by (cases "register_member st i n ph")
    from p have "?P st'"
      by (cases rule: register_member_cases) (auto simp: MAX_FINE_LIMIT_def split: if_splits)
    with p Register_member show ?thesis by (simp add: step_def)
  next
    case (Issue_book bi mi now)
    obtain e st' where p: "issue_book st bi mi now = (e, st')"
      by (cases "issue_book st bi mi now")
    from p have "?P st'"
      by (cases rule: issue_book_cases)
        (auto simp: issue_effect_members check_block_law split: if_splits)
    with p Issue_book show ?thesis by (simp add: step_def)
  next
    case (Return_book s now)
    obtain e st' where p: "return_book st s now = (e, st')" by (cases "return_book st s now")
    from return_book_cases [OF p] have "?P st'"
      by (auto simp: return_effect_members split: if_splits)
    with p Return_book show ?thesis by (simp add: step_def)
  qed
  with assms show ?thesis by simp
qed

lemma block_ok_reachable: "block_ok (run init_state xs)"
  using stores_ok_reachable [of xs] by (simp add: stores_ok_def)

text \<open>
  Claim C3. The blocking law. \<open>check_and_update_block_status\<close> sets the flag to
  \<open>outstanding_fine \<ge> MAX_FINE_LIMIT\<close> and leaves the fine alone. After the
  recheck at the start of \<open>issue_book\<close> (for a known book and member, whatever
  the outcome) and after the fine step of a successful \<open>return_book\<close> the
  member concerned satisfies the law. No other rule sets the flag: every
  operation leaves a member's flag and fine as they were or leaves the member
  satisfying the law, so a member whose fine is below the limit is unblocked by
  the same recomputation. Hence the law holds for every member in every state
  reached from the empty stores.
\<close>

theorem blocking_law:
  "blocked (check_and_update_block_status m) =
     (MAX_FINE_LIMIT \<le> outstanding_fine (check_and_update_block_status m)) \<and>
   outstanding_fine (check_and_update_block_status m) = outstanding_fine m \<and>
   (\<forall>b m0. books st (strip bi) = Some b \<and> members st (strip mi) = Some m0 \<longrightarrow>
      (\<exists>m'. members (snd (issue_book st bi mi now)) (strip mi) = Some m' \<and>
         outstanding_fine m' = outstanding_fine m0 \<and>
         blocked m' = (MAX_FINE_LIMIT \<le> outstanding_fine m'))) \<and>
   (\<forall>st'. return_book st s now = (None, st') \<longrightarrow>
      (\<exists>iid r m0 m'. py_int s = Some iid \<and> issues st iid = Some r \<and>
         members st (rec_member_id r) = Some m0 \<and> members st' (rec_member_id r) = Some m' \<and>
         outstanding_fine m' = outstanding_fine m0 + days_late r now * FINE_PER_DAY \<and>
         blocked m' = (MAX_FINE_LIMIT \<le> outstanding_fine m'))) \<and>
   (\<forall>m'. members (step st x) mid = Some m' \<longrightarrow>
      (\<exists>m0. members st mid = Some m0 \<and> blocked m' = blocked m0 \<and>
         outstanding_fine m' = outstanding_fine m0) \<or>
      blocked m' = (MAX_FINE_LIMIT \<le> outstanding_fine m')) \<and>
   block_ok (run init_state xs)"
proof (intro conjI allI impI)
  show "blocked (check_and_update_block_status m) =
      (MAX_FINE_LIMIT \<le> outstanding_fine (check_and_update_block_status m))"
    by (simp add: check_block_law)
  show "outstanding_fine (check_and_update_block_status m) = outstanding_fine m"
    by (simp add: check_block_law)
  show "block_ok (run init_state xs)" by (rule block_ok_reachable)
next
  fix b m0
  assume "books st (strip bi) = Some b \<and> members st (strip mi) = Some m0"
  then show "\<exists>m'. members (snd (issue_book st bi mi now)) (strip mi) = Some m' \<and>
      outstanding_fine m' = outstanding_fine m0 \<and>
      blocked m' = (MAX_FINE_LIMIT \<le> outstanding_fine m')"
    using issue_book_recheck by blast
next
  fix st'
  assume "return_book st s now = (None, st')"
  then show "\<exists>iid r m0 m'. py_int s = Some iid \<and> issues st iid = Some r \<and>
      members st (rec_member_id r) = Some m0 \<and> members st' (rec_member_id r) = Some m' \<and>
      outstanding_fine m' = outstanding_fine m0 + days_late r now * FINE_PER_DAY \<and>
      blocked m' = (MAX_FINE_LIMIT \<le> outstanding_fine m')"
    by (rule return_book_block_law)
next
  fix m'
  assume "members (step st x) mid = Some m'"
  then show "(\<exists>m0. members st mid = Some m0 \<and> blocked m' = blocked m0 \<and>
      outstanding_fine m' = outstanding_fine m0) \<or>
      blocked m' = (MAX_FINE_LIMIT \<le> outstanding_fine m')"
    by (rule step_block_law)
qed

theorem blocking_law_witness:
  "blocked (check_and_update_block_status
      \<lparr>member_id = ''M1'', name = ''Name'', phone = ''Phone'', blocked = True,
       outstanding_fine = 100, borrowed_books = []\<rparr>) = False \<and>
   map_option blocked
     (members (snd (issue_book (run init_state scenario_B) ''B1'' ''M1'' (at_day 115))) ''M1'') =
     Some True \<and>
   map_option blocked
     (members (snd (return_book (run init_state scenario_A) ''1'' (at_day 114))) ''M1'') =
     Some True \<and>
   map_option blocked (members (step (run init_state scenario_A) (Return_book ''1'' (at_day 113))) ''M1'') =
     Some False \<and>
   block_ok (run init_state scenario_B)"
proof -
  let ?A = "run init_state scenario_A"
  let ?B = "run init_state scenario_B"
  let ?d = "\<lparr>member_id = ''M1'', name = ''Name'', phone = ''Phone'', blocked = True,
            outstanding_fine = 100, borrowed_books = []\<rparr>"
  let ?mA = "\<lparr>member_id = ''M1'', name = ''Name'', phone = ''Phone'', blocked = False,
             outstanding_fine = 0, borrowed_books = [''B1'']\<rparr>"
  let ?mB = "\<lparr>member_id = ''M1'', name = ''Name'', phone = ''Phone'', blocked = True,
             outstanding_fine = 500, borrowed_books = [''B1'']\<rparr>"
  let ?r = "\<lparr>issue_id = 1, rec_book_id = ''B1'', rec_member_id = ''M1'',
             issue_date = at_day 0, due_date = at_day 14, return_date = None,
             fine_charged = 0\<rparr>"
  note law = blocking_law [where m = ?d and st = ?B and bi = "''B1''" and mi = "''M1''"
      and now = "at_day 115"]
  note law' = blocking_law [where st = ?A and s = "''1''" and now = "at_day 114"]
  note law'' = blocking_law [where st = ?A and x = "Return_book ''1'' (at_day 113)"
      and mid = "''M1''" and xs = scenario_B]
  have s: "strip ''M1'' = ''M1''" by code_simp
  have 1: "blocked (check_and_update_block_status ?d) = False"
    using law by (simp add: MAX_FINE_LIMIT_def)
  have hB: "books ?B (strip ''B1'') = Some \<lparr>book_id = ''B1'', title = ''Title'', author = ''Author'',
      category = ''Fiction'', total_copies = 2, available_copies = 1\<rparr> \<and>
      members ?B (strip ''M1'') = Some ?mB"
    by code_simp
  have 2: "map_option blocked (members (snd (issue_book ?B ''B1'' ''M1'' (at_day 115))) ''M1'') = Some True"
  proof -
    from law hB obtain m' where
      "members (snd (issue_book ?B ''B1'' ''M1'' (at_day 115))) (strip ''M1'') = Some m'"
      "outstanding_fine m' = outstanding_fine ?mB"
      "blocked m' = (MAX_FINE_LIMIT \<le> outstanding_fine m')"
      by blast
    then show ?thesis by (simp add: s MAX_FINE_LIMIT_def)
  qed
  have ret: "return_book ?A ''1'' (at_day 114) = (None, snd (return_book ?A ''1'' (at_day 114)))"
  proof -
    have "fst (return_book ?A ''1'' (at_day 114)) = None" by code_simp
    then show ?thesis by (metis prod.collapse)
  qed
  have hA: "py_int ''1'' = Some 1" "issues ?A 1 = Some ?r" "members ?A ''M1'' = Some ?mA"
    by code_simp+
  have 3: "map_option blocked (members (snd (return_book ?A ''1'' (at_day 114))) ''M1'') = Some True"
  proof -
    from law' ret obtain iid r m0 m' where *:
      "py_int ''1'' = Some iid" "issues ?A iid = Some r"
      "members ?A (rec_member_id r) = Some m0"
      "members (snd (return_book ?A ''1'' (at_day 114))) (rec_member_id r) = Some m'"
      "outstanding_fine m' = outstanding_fine m0 + days_late r (at_day 114) * FINE_PER_DAY"
      "blocked m' = (MAX_FINE_LIMIT \<le> outstanding_fine m')"
      by blast
    from * hA have "iid = 1" "r = ?r" by simp_all
    with * hA have "m0 = ?mA" by simp
    with * \<open>r = ?r\<close> show ?thesis
      by (simp add: days_late_def date_diff_days_def at_day_def FINE_PER_DAY_def MAX_FINE_LIMIT_def)
  qed
  have 4: "map_option blocked (members (step ?A (Return_book ''1'' (at_day 113))) ''M1'') = Some False"
  proof -
    have m': "members (step ?A (Return_book ''1'' (at_day 113))) ''M1'' =
        Some \<lparr>member_id = ''M1'', name = ''Name'', phone = ''Phone'', blocked = False,
              outstanding_fine = 495, borrowed_books = []\<rparr>"
      by code_simp
    from law'' m' show ?thesis by simp
  qed
  have 5: "block_ok ?B" using law'' by simp
  from 1 2 3 4 5 show ?thesis by simp
qed

section \<open>Bounds on the copy counts\<close>

text \<open>
  In every state reached from the empty stores the available copies of a book
  lie between 0 and its total, and \<open>add_book\<close> only stores a total of at
  least 1.
\<close>

lemma reachable_copies_bounds:
  assumes "books (run init_state xs) bid = Some b"
  shows "0 \<le> available_copies b \<and> available_copies b \<le> total_copies b"
proof -
  have ok: "stores_ok (run init_state xs)" by (rule stores_ok_reachable)
  from ok assms have "0 \<le> available_copies b" by (simp add: stores_ok_def avail_ok_def)
  moreover from ok assms
  have "total_copies b - available_copies b = int (issued_copies (run init_state xs) bid)"
    by (simp add: stores_ok_def copies_ok_def)
  then have "available_copies b \<le> total_copies b" by simp
  ultimately show ?thesis by simp
qed

lemma add_book_positive:
  assumes "add_book st i t a c n = (None, st')"
  shows "\<exists>b. books st' (strip i) = Some b \<and> 1 \<le> total_copies b"
  using assms by (cases rule: add_book_cases) auto

text \<open>
  Claim C7. The claim asks for \<open>total_copies \<ge> 1\<close> in every book after every
  sequence of operations, a non-positive count being refused by \<open>add_book\<close>
  and \<open>update_book\<close> alike. \<open>add_book\<close> reads the count with
  \<^verbatim>\<open>input_int(..., minimum=1)\<close>; \<open>update_book\<close> only compares the new total
  with the number of issued copies, so for a book with nothing out it accepts
  0: after adding a book with one copy and updating its total to \<^verbatim>\<open>0\<close>, the
  update reports success and the book has \<open>total_copies = 0\<close>.
\<close>

theorem update_book_zero_total:
  "fst (update_book (run init_state [Add_book ''B1'' ''Title'' ''Author'' ''Fiction'' [''1'']])
          ''B1'' '''' '''' '''' ''0'') = None \<and>
   books (snd (update_book (run init_state [Add_book ''B1'' ''Title'' ''Author'' ''Fiction'' [''1'']])
          ''B1'' '''' '''' '''' ''0'')) ''B1'' =
     Some \<lparr>book_id = ''B1'', title = ''Title'', author = ''Author'', category = ''Fiction'',
           total_copies = 0, available_copies = 0\<rparr>"
  by code_simp

section \<open>The borrowed books of a member\<close>

text \<open>
  Claim C8, as stated: \<open>borrowed_books\<close> never holds a book id twice. It
  fails when a member is issued two copies of one book: \<open>issue_book\<close> appends
  without looking.
\<close>

theorem borrowed_books_duplicates_counterexample:
  "map_option borrowed_books (members (run init_state scenario_D) ''M1'') = Some [''B1'', ''B1''] \<and>
   map_option (distinct \<circ> borrowed_books) (members (run init_state scenario_D) ''M1'') = Some False"
  by code_simp

text \<open>
  Claim C8, amended. In every state reached from the empty stores, the list
  \<open>borrowed_books\<close> of a member holds each book id exactly as many times as
  there are active issue records of that book to that member.
\<close>

theorem borrowed_books_counts:
  assumes "members (run init_state xs) mid = Some m"
  shows "count_list (borrowed_books m) bid = active_loans (run init_state xs) mid bid"
  using stores_ok_reachable [of xs] assms by (simp add: stores_ok_def borrowed_ok_def)

theorem borrowed_books_counts_witness:
  "count_list [''B1'', ''B1''] ''B1'' = active_loans (run init_state scenario_D) ''M1'' ''B1'' \<and>
   active_loans (run init_state scenario_D) ''M1'' ''B1'' = 2"
proof -
  let ?m = "\<lparr>member_id = ''M1'', name = ''Name'', phone = ''Phone'', blocked = False,
            outstanding_fine = 0, borrowed_books = [''B1'', ''B1'']\<rparr>"
  have h: "members (run init_state scenario_D) ''M1'' = Some ?m" by code_simp
  from borrowed_books_counts [OF h, of "''B1''"] show ?thesis by simp
qed

end
